theory Spec2Isabelle
  imports Complex_Main
begin

section \<open>Data model of the funding-rate arbitrage bot (src/main.py)\<close>

text \<open>
  Numbers. The source computes with Python floats. The embedding uses exact
  rationals (\<^typ>\<open>rat\<close>): every arithmetic expression of the source is kept
  as it is written (\<open>float(x) * 365 * 100\<close>, \<open>usd / mark_price\<close>,
  \<open>mark_price * (1 + max_slippage)\<close>), and the binary rounding of each
  operation, infinities and NaN are outside the model.

  Strings made from numbers. \<open>str(x)\<close> of a float is kept symbolic
  (\<open>Str_float x\<close>): it is injective on floats and never equal to the literal
  \<open>"0"\<close>, the only other price the program sends. The fixed-point format
  \<open>f"{x:.{d}f}"\<close> is computed (\<open>format_f\<close>).
\<close>

datatype pystr = Str_float rat | Lit string

datatype error =
    ValueError | KeyError | TypeError | ZeroDivisionError | AttributeError | IndexError
  | RequestException

record market =
  symbol :: string
  perp_asset_id :: int
  spot_asset_id :: int
  funding_rate :: rat
  mark_price :: rat
  size_decimals :: int

text \<open>The order dictionary built by \<open>_place_order\<close>: keys a, b, p, s, r, t.\<close>

datatype tif = Gtc

record order =
  order_a :: int
  order_b :: bool
  order_p :: pystr
  order_s :: pystr
  order_r :: bool
  order_t :: tif

text \<open>
  An entry of \<open>active_positions\<close>. The source stores a reference to the Market
  object under \<open>'market'\<close>; the model stores the contents the object has when
  the position is recorded. The program never reads this field again.
\<close>

record position =
  entry_time :: nat
  pos_funding_rate :: rat
  pos_mark_price :: rat
  amount :: rat
  pos_market :: market

text \<open>
  The dictionaries appended to \<open>opportunities\<close>. \<open>opp_market\<close> holds the
  contents of the Market object that the source refers to; the refresh loop below
  keeps it equal to the object (see \<open>refresh_loop\<close>).
\<close>

record opp =
  opp_symbol :: string
  opp_funding_rate :: rat
  opp_mark_price :: rat
  opp_market :: market

record bot =
  min_funding_rate :: rat
  position_size_usd :: rat
  max_slippage :: rat
  active_positions :: "string \<rightharpoonup> position"
  markets :: "string \<rightharpoonup> market"

subsection \<open>The outside world\<close>

text \<open>
  What \<open>response.json()\<close> of an order submission can be, as far as the program
  looks at it: a JSON object, with the value of its \<open>status\<close> key when that is
  a string (\<open>None\<close>: no such key, or not a string), or any other JSON value with
  its truth value (JSON \<open>null\<close> is \<open>Non_object False\<close>). \<open>Raises\<close>:
  \<open>requests.post\<close> or \<open>response.json()\<close> raised.
\<close>

datatype json = Object "string option" | Non_object bool

datatype reply = Raises error | Returns json

text \<open>Entries of \<open>perp_meta['universe']\<close> and \<open>spot_meta['universe']\<close>.\<close>

record perp_info =
  perp_name :: string
  szDecimals :: int

record spot_info =
  spot_name :: string
  spot_index :: int

text \<open>
  An entry of \<open>contexts[1]\<close>: the results of \<open>float(ctx['funding'])\<close> and
  \<open>float(ctx['markPx'])\<close>, \<open>Inl\<close> the exception when the key is missing or the
  value does not parse.
\<close>

record ctx =
  funding :: "error + rat"
  markPx :: "error + rat"

text \<open>
  The answer to the \<open>metaAndAssetCtxs\<close> request. \<open>Request_failed\<close>:
  \<open>_make_request\<close> raised (transport failure, HTTP error status, a body that
  is not JSON). \<open>Malformed\<close>: the body is JSON without the shape
  (universe, contexts), so that reading it raises before any market is touched.
  \<open>Quote universe ctxs\<close>: \<open>contexts[0]['universe']\<close> and \<open>contexts[1]\<close>.
\<close>

datatype quote_reply =
    Request_failed error
  | Malformed error
  | Quote "perp_info list" "ctx list"

datatype event =
    Info string
  | Error string
  | Exc string error
  | Sleep nat

text \<open>
  The observable effects so far: the orders handed to the exchange, the log and the
  sleeps, and (for the analysis only) every invocation of \<open>execute_funding_arb\<close>
  with the ledger as it was at that moment and the value returned.
\<close>

record world =
  sent :: "order list"
  trace :: "event list"
  calls :: "(market \<times> (string \<rightharpoonup> position) \<times> bool) list"

text \<open>
  The environment of one stretch of execution: how the exchange answers an order,
  given the orders before it, the clock, and the quote snapshot of the cycle.
\<close>

record env =
  exchange :: "order list \<Rightarrow> order \<Rightarrow> reply"
  clock :: "order list \<Rightarrow> nat"
  quote :: quote_reply

section \<open>Formatting\<close>

definition digit_char :: "nat \<Rightarrow> char" where
  "digit_char n = ''0123456789'' ! n"

fun digits_nat :: "nat \<Rightarrow> string" where
  "digits_nat n =
     (if n < 10 then [digit_char n]
      else digits_nat (n div 10) @ [digit_char (n mod 10)])"

declare digits_nat.simps [simp del]

text \<open>Rounding to the nearest integer, ties to even, as the float formatter does.\<close>

definition round_half_even :: "rat \<Rightarrow> int" where
  "round_half_even x =
     (let f = \<lfloor>x\<rfloor>; d = x - of_int f
      in if d < 1 / 2 then f
         else if 1 / 2 < d then f + 1
         else if even f then f else f + 1)"

text \<open>
  \<open>f"{x:.{prec}f}"\<close> for \<open>prec \<ge> 0\<close>: an optional minus sign, the integer
  part, and \<open>prec\<close> decimals after a point (no point when \<open>prec\<close> is 0). Python
  rounds the exact value of the float; the model rounds the exact rational in the
  same way.
\<close>

definition format_f :: "nat \<Rightarrow> rat \<Rightarrow> string" where
  "format_f prec x =
     (let n = nat (round_half_even (\<bar>x\<bar> * 10 ^ prec));
          ip = n div 10 ^ prec;
          fp = digits_nat (n mod 10 ^ prec)
      in (if x < 0 then ''-'' else '''') @ digits_nat ip @
         (if prec = 0 then ''''
          else ''.'' @ replicate (prec - length fp) (CHR ''0'') @ fp))"

section \<open>Market Catalog: \<open>initialize_markets\<close>\<close>

text \<open>\<open>name.split('/')[0]\<close>\<close>

definition split_slash_0 :: "string \<Rightarrow> string" where
  "split_slash_0 name = takeWhile (\<lambda>c. c \<noteq> CHR ''/'') name"

text \<open>The inner loop: the first spot entry whose base asset is the symbol.\<close>

fun find_spot :: "string \<Rightarrow> spot_info list \<Rightarrow> spot_info option" where
  "find_spot symb [] = None"
| "find_spot symb (spot # spots) =
     (if split_slash_0 (spot_name spot) = symb then Some spot
      else find_spot symb spots)"

text \<open>The outer loop over \<open>enumerate(perp_meta['universe'])\<close>.\<close>

fun map_markets ::
  "nat \<Rightarrow> perp_info list \<Rightarrow> spot_info list \<Rightarrow> (string \<rightharpoonup> market) \<Rightarrow> (string \<rightharpoonup> market)"
where
  "map_markets perp_idx [] spots ms = ms"
| "map_markets perp_idx (perp # perps) spots ms =
     (case find_spot (perp_name perp) spots of
        None \<Rightarrow> map_markets (Suc perp_idx) perps spots ms
      | Some spot_inf \<Rightarrow>
          map_markets (Suc perp_idx) perps spots
            (ms(perp_name perp \<mapsto>
               \<lparr>symbol = perp_name perp,
                perp_asset_id = int perp_idx,
                spot_asset_id = 10000 + spot_index spot_inf,
                funding_rate = 0,
                mark_price = 0,
                size_decimals = szDecimals perp\<rparr>)))"

text \<open>
  \<open>initialize_markets\<close>, on the answers to the two catalog requests
  (\<open>Inl\<close>: \<open>_make_request\<close> raised; the spot request is made only after the
  perp request succeeded). It logs and re-raises a failure. \<open>ms\<close> is
  \<open>self.markets\<close> at the call: the empty dictionary that \<open>__init__\<close> has just
  created.
\<close>

definition initialize_markets ::
  "error + perp_info list \<Rightarrow> error + spot_info list \<Rightarrow> (string \<rightharpoonup> market) \<Rightarrow> world
     \<Rightarrow> world \<times> (error + (string \<rightharpoonup> market))"
where
  "initialize_markets perp_meta spot_meta ms w =
     (case perp_meta of
        Inl e \<Rightarrow> (w\<lparr>trace := trace w @ [Exc ''API request failed: '' e,
                                          Exc ''Error initializing markets: '' e]\<rparr>, Inl e)
      | Inr perps \<Rightarrow>
          (case spot_meta of
             Inl e \<Rightarrow> (w\<lparr>trace := trace w @ [Exc ''API request failed: '' e,
                                               Exc ''Error initializing markets: '' e]\<rparr>, Inl e)
           | Inr spots \<Rightarrow>
               (let ms' = map_markets 0 perps spots ms
                in (w\<lparr>trace := trace w @
                      [Info (''Initialized '' @ digits_nat (card (dom ms')) @ '' markets'')]\<rparr>,
                    Inr ms'))))"

section \<open>Market Data Feed and Opportunity Ranker: \<open>get_funding_opportunities\<close>\<close>

text \<open>\<open>float(ctx['funding']) * 365 * 100  # Annualize funding rate\<close>\<close>

definition annualize :: "rat \<Rightarrow> rat" where
  "annualize r = r * 365 * 100"

text \<open>
  The loop over \<open>enumerate(contexts[1])\<close>. It returns the catalog as the loop
  left it, also when it stops on an exception: the Market objects are updated in
  place, one field at a time.

  Aliasing: every dictionary appended for a symbol refers to the one Market object
  of that symbol. When the universe names a symbol twice, the second update is
  seen through the first dictionary too; the model rewrites \<open>opp_market\<close> of
  the earlier dictionaries of that symbol to say so.
\<close>

fun refresh_loop ::
  "perp_info list \<Rightarrow> nat \<Rightarrow> ctx list \<Rightarrow> (string \<rightharpoonup> market) \<Rightarrow> opp list
     \<Rightarrow> (string \<rightharpoonup> market) \<times> (error + opp list)"
where
  "refresh_loop universe idx [] ms opportunities = (ms, Inr opportunities)"
| "refresh_loop universe idx (c # ctxs) ms opportunities =
     (if length universe \<le> idx then (ms, Inl IndexError)
      else
        (let symb = perp_name (universe ! idx)
         in case ms symb of
              None \<Rightarrow> refresh_loop universe (Suc idx) ctxs ms opportunities
            | Some mkt \<Rightarrow>
                (case funding c of
                   Inl err \<Rightarrow> (ms, Inl err)
                 | Inr r \<Rightarrow>
                     (let mkt1 = mkt\<lparr>funding_rate := annualize r\<rparr>
                      in case markPx c of
                           Inl err \<Rightarrow> (ms(symb \<mapsto> mkt1), Inl err)
                         | Inr px \<Rightarrow>
                             (let mkt2 = mkt1\<lparr>mark_price := px\<rparr>
                              in refresh_loop universe (Suc idx) ctxs (ms(symb \<mapsto> mkt2))
                                   (map (\<lambda>x. if opp_symbol x = symb
                                              then x\<lparr>opp_market := mkt2\<rparr> else x)
                                      opportunities @
                                    [\<lparr>opp_symbol = symb,
                                      opp_funding_rate = funding_rate mkt2,
                                      opp_mark_price = mark_price mkt2,
                                      opp_market = mkt2\<rparr>]))))))"

text \<open>
  \<open>opportunities.sort(key=lambda x: abs(x['funding_rate']), reverse=True)\<close>:
  Python reverses the list, sorts it stably in ascending order of the key, and
  reverses the result.
\<close>

definition sort_abs_reverse :: "opp list \<Rightarrow> opp list" where
  "sort_abs_reverse opportunities =
     rev (sort_key (\<lambda>x. \<bar>opp_funding_rate x\<bar>) (rev opportunities))"

definition get_funding_opportunities :: "env \<Rightarrow> bot \<times> world \<Rightarrow> (bot \<times> world) \<times> opp list" where
  "get_funding_opportunities e bw =
     (case bw of (b, w) \<Rightarrow>
        (case quote e of
           Request_failed err \<Rightarrow>
             ((b, w\<lparr>trace := trace w @
                       [Exc ''API request failed: '' err,
                        Exc ''Error fetching funding opportunities: '' err]\<rparr>), [])
         | Malformed err \<Rightarrow>
             ((b, w\<lparr>trace := trace w @
                       [Exc ''Error fetching funding opportunities: '' err]\<rparr>), [])
         | Quote universe ctxs \<Rightarrow>
             (case refresh_loop universe 0 ctxs (markets b) [] of
                (ms, Inl err) \<Rightarrow>
                  ((b\<lparr>markets := ms\<rparr>,
                    w\<lparr>trace := trace w @
                       [Exc ''Error fetching funding opportunities: '' err]\<rparr>), [])
              | (ms, Inr opportunities) \<Rightarrow>
                  ((b\<lparr>markets := ms\<rparr>, w), sort_abs_reverse opportunities))))"

section \<open>Order entry: \<open>_place_order\<close> and \<open>_emergency_close\<close>\<close>

text \<open>
  \<open>_place_order\<close> returns \<open>response.json()\<close>, or \<open>None\<close> after logging when
  the submission raised. Every call is recorded in \<open>sent\<close>, with the order
  dictionary it builds; the envelope around it (action type, grouping, nonce, and
  the signature, which \<open>_get_signature\<close> leaves \<open>None\<close>) is the same for every
  order and is not part of the model.
\<close>

definition place_order ::
  "env \<Rightarrow> int \<Rightarrow> bool \<Rightarrow> pystr \<Rightarrow> pystr \<Rightarrow> world \<Rightarrow> world \<times> json option"
where
  "place_order e asset_id is_buy price size_str w =
     (let ordr = \<lparr>order_a = asset_id, order_b = is_buy, order_p = price,
                  order_s = size_str, order_r = False, order_t = Gtc\<rparr>
      in case exchange e (sent w) ordr of
           Raises err \<Rightarrow>
             (w\<lparr>sent := sent w @ [ordr],
                trace := trace w @ [Exc ''Error placing order: '' err]\<rparr>, None)
         | Returns j \<Rightarrow> (w\<lparr>sent := sent w @ [ordr]\<rparr>, Some j))"

text \<open>\<open>x.get('status')\<close>: only a dictionary has the method.\<close>

fun get_status :: "json option \<Rightarrow> error + string option" where
  "get_status None = Inl AttributeError"
| "get_status (Some (Non_object t)) = Inl AttributeError"
| "get_status (Some (Object st)) = Inr st"

text \<open>
  The truth value of what \<open>_place_order\<close> returned. An empty dictionary is false
  in Python; it is \<open>Object None\<close> here and counted true, which gives the same
  result and the same log below, since its status is not \<open>'ok'\<close>.
\<close>

fun truthy :: "json option \<Rightarrow> bool" where
  "truthy None = False"
| "truthy (Some (Non_object t)) = t"
| "truthy (Some (Object st)) = True"

text \<open>
  \<open>_emergency_close\<close>; the result is the truth value of what the source returns.
\<close>

definition emergency_close ::
  "env \<Rightarrow> int \<Rightarrow> pystr \<Rightarrow> bool \<Rightarrow> world \<Rightarrow> world \<times> bool"
where
  "emergency_close e asset_id size_str is_buy w =
     (case place_order e asset_id (\<not> is_buy) (Lit ''0'') size_str w of
        (w1, close_order) \<Rightarrow>
          if \<not> truthy close_order then (w1, False)
          else
            (case get_status close_order of
               Inl err \<Rightarrow>
                 (w1\<lparr>trace := trace w1 @ [Exc ''Error in emergency close: '' err]\<rparr>, False)
             | Inr st \<Rightarrow> (w1, st = Some ''ok'')))"

section \<open>Hedge Execution Engine: \<open>execute_funding_arb\<close>\<close>

text \<open>
  The body of the \<open>try\<close>: the state it leaves and the value it returns, or the
  exception it raises.
\<close>

definition arb_body ::
  "env \<Rightarrow> market \<Rightarrow> rat \<Rightarrow> bot \<times> world \<Rightarrow> (bot \<times> world) \<times> (error + bool)"
where
  "arb_body e mkt fr bw =
     (case bw of (b, w) \<Rightarrow>
        if mark_price mkt = 0 then ((b, w), Inl ZeroDivisionError)
        else
          (let token_amount = position_size_usd b / mark_price mkt
           in if size_decimals mkt < 0 then ((b, w), Inl ValueError)
              else
                (let formatted_amount = format_f (nat (size_decimals mkt)) token_amount;
                     w0 = w\<lparr>trace := trace w @
                            [Info (''Attempting funding arb for '' @ symbol mkt),
                             Info (''Funding Rate: '' @ format_f 2 fr @ ''% APR''),
                             Info (''Trade size: '' @ formatted_amount @ '' '' @ symbol mkt @
                                   '' ($'' @ format_f 2 (position_size_usd b) @ '')'')]\<rparr>
                 in case place_order e (spot_asset_id mkt) True
                           (Str_float (mark_price mkt * (1 + max_slippage b)))
                           (Lit formatted_amount) w0 of
                      (w1, spot_order) \<Rightarrow>
                        (case get_status spot_order of
                           Inl err \<Rightarrow> ((b, w1), Inl err)
                         | Inr st \<Rightarrow>
                             if st \<noteq> Some ''ok'' then
                               ((b, w1\<lparr>trace := trace w1 @
                                         [Error ''Failed to place spot order'']\<rparr>), Inr False)
                             else
                               (case place_order e (perp_asset_id mkt) False
                                       (Str_float (mark_price mkt * (1 - max_slippage b)))
                                       (Lit formatted_amount) w1 of
                                  (w2, perp_order) \<Rightarrow>
                                    (case get_status perp_order of
                                       Inl err \<Rightarrow> ((b, w2), Inl err)
                                     | Inr st2 \<Rightarrow>
                                         if st2 \<noteq> Some ''ok'' then
                                           (case emergency_close e (spot_asset_id mkt)
                                                   (Lit formatted_amount) True
                                                   (w2\<lparr>trace := trace w2 @
                                                      [Error ''Failed to place perp order'']\<rparr>) of
                                              (w3, unwound) \<Rightarrow> ((b, w3), Inr False))
                                         else
                                           ((b\<lparr>active_positions :=
                                                 (active_positions b)(symbol mkt \<mapsto>
                                                    \<lparr>entry_time = clock e (sent w2),
                                                     pos_funding_rate = fr,
                                                     pos_mark_price = mark_price mkt,
                                                     amount = token_amount,
                                                     pos_market = mkt\<rparr>)\<rparr>,
                                             w2\<lparr>trace := trace w2 @
                                                [Info (''Successfully opened funding arbitrage position for '' @
                                                       symbol mkt)]\<rparr>),
                                            Inr True)))))))"

text \<open>
  \<open>execute_funding_arb\<close>: the body, with every exception logged and turned into
  \<open>False\<close>. The invocation is appended to \<open>calls\<close>.
\<close>

definition execute_funding_arb ::
  "env \<Rightarrow> market \<Rightarrow> rat \<Rightarrow> bot \<times> world \<Rightarrow> (bot \<times> world) \<times> bool"
where
  "execute_funding_arb e mkt fr bw =
     (case arb_body e mkt fr bw of
        ((b1, w1), Inr res) \<Rightarrow>
          ((b1, w1\<lparr>calls := calls w1 @ [(mkt, active_positions (fst bw), res)]\<rparr>), res)
      | ((b1, w1), Inl err) \<Rightarrow>
          ((b1, w1\<lparr>trace := trace w1 @ [Exc ''Error executing funding arbitrage: '' err],
                   calls := calls w1 @ [(mkt, active_positions (fst bw), False)]\<rparr>), False))"

section \<open>Control Loop: \<open>main\<close>\<close>

text \<open>The loop \<open>for opp in opportunities\<close> of one cycle.\<close>

fun hedge_loop :: "env \<Rightarrow> opp list \<Rightarrow> bot \<times> world \<Rightarrow> bot \<times> world" where
  "hedge_loop e [] bw = bw"
| "hedge_loop e (opp # opportunities) bw =
     (case bw of (b, w) \<Rightarrow>
        if min_funding_rate b \<le> \<bar>opp_funding_rate opp\<bar> then
          if active_positions b (opp_symbol opp) = None then
            (case execute_funding_arb e (opp_market opp) (opp_funding_rate opp)
                    (b, w\<lparr>trace := trace w @
                          [Info (CHR 0x0A # ''Found opportunity: '' @ opp_symbol opp @ '' with '' @
                                 format_f 2 (opp_funding_rate opp) @ ''% APR funding rate'')]\<rparr>) of
               ((b1, w1), success) \<Rightarrow>
                 hedge_loop e opportunities
                   (b1, w1\<lparr>trace := trace w1 @
                          [if success
                           then Info (''Successfully executed funding arbitrage for '' @ opp_symbol opp)
                           else Error (''Failed to execute funding arbitrage for '' @ opp_symbol opp)]\<rparr>))
          else hedge_loop e opportunities bw
        else hedge_loop e opportunities bw)"

text \<open>
  One pass through the body of \<open>while True\<close>, up to and including its sleep.
  Nothing in the body raises in this model (both operations catch every exception
  themselves), so the handler \<open>Error in main loop\<close> has no branch.
\<close>

definition cycle :: "env \<Rightarrow> bot \<times> world \<Rightarrow> bot \<times> world" where
  "cycle e bw =
     (case get_funding_opportunities e bw of
        ((b1, w1), opportunities) \<Rightarrow>
          if opportunities = [] then
            (b1, w1\<lparr>trace := trace w1 @ [Info ''No opportunities found'', Sleep 60]\<rparr>)
          else
            (case hedge_loop e opportunities
                    (b1, w1\<lparr>trace := trace w1 @
                           Info (CHR 0x0A # ''Top funding rate opportunities:'') #
                           map (\<lambda>opp. Info (opp_symbol opp @ '': '' @
                                            format_f 2 (opp_funding_rate opp) @ ''% APR''))
                             (take 5 opportunities)\<rparr>) of
               (b2, w2) \<Rightarrow> (b2, w2\<lparr>trace := trace w2 @ [Sleep 60]\<rparr>)))"

text \<open>
  \<open>HyperliquidFundingArb.__init__\<close>, on the two credentials read from the
  environment (\<open>None\<close>: not set) and the answers to the two catalog requests.
\<close>

definition init_bot ::
  "string option \<Rightarrow> string option \<Rightarrow> rat \<Rightarrow> rat \<Rightarrow> rat \<Rightarrow>
   error + perp_info list \<Rightarrow> error + spot_info list \<Rightarrow> world \<Rightarrow> world \<times> (error + bot)"
where
  "init_bot hl_key hl_secret min_rate size_usd slippage perp_meta spot_meta w =
     (if hl_key = None \<or> hl_key = Some [] \<or> hl_secret = None \<or> hl_secret = Some []
      then (w, Inl ValueError)
      else
        (case initialize_markets perp_meta spot_meta Map.empty w of
           (w1, Inl err) \<Rightarrow> (w1, Inl err)
         | (w1, Inr ms) \<Rightarrow>
             (w1, Inr \<lparr>min_funding_rate = min_rate,
                       position_size_usd = size_usd,
                       max_slippage = slippage,
                       active_positions = Map.empty,
                       markets = ms\<rparr>)))"

definition world0 :: world where
  "world0 = \<lparr>sent = [], trace = [], calls = []\<rparr>"

text \<open>
  The states of \<open>main\<close> at the head of \<open>while True\<close>: the bot as constructed
  with the arguments \<open>main\<close> passes, then any number of cycles, each in any
  environment.
\<close>

inductive reachable :: "bot \<times> world \<Rightarrow> bool" where
  start: "init_bot hl_key hl_secret 0.05 1000 0.001 perp_meta spot_meta world0 = (w, Inr b)
            \<Longrightarrow> reachable (b, w)"
| step: "reachable bw \<Longrightarrow> reachable (cycle e bw)"
section \<open>Vocabulary for the statements\<close>

text \<open>
  An answer of the exchange that \<open>execute_funding_arb\<close> takes as acceptance:
  a JSON object whose \<open>status\<close> is \<open>'ok'\<close>.
\<close>

definition accepted :: "reply \<Rightarrow> bool" where
  "accepted r = (r = Returns (Object (Some ''ok'')))"

text \<open>
  The three orders \<open>execute_funding_arb\<close> can submit, as it builds them: the spot
  leg, the perp leg, and the order of \<open>_emergency_close\<close>.
\<close>

definition formatted_amount_of :: "bot \<Rightarrow> market \<Rightarrow> string" where
  "formatted_amount_of b mkt =
     format_f (nat (size_decimals mkt)) (position_size_usd b / mark_price mkt)"

definition spot_leg :: "bot \<Rightarrow> market \<Rightarrow> order" where
  "spot_leg b mkt =
     \<lparr>order_a = spot_asset_id mkt, order_b = True,
      order_p = Str_float (mark_price mkt * (1 + max_slippage b)),
      order_s = Lit (formatted_amount_of b mkt), order_r = False, order_t = Gtc\<rparr>"

definition perp_leg :: "bot \<Rightarrow> market \<Rightarrow> order" where
  "perp_leg b mkt =
     \<lparr>order_a = perp_asset_id mkt, order_b = False,
      order_p = Str_float (mark_price mkt * (1 - max_slippage b)),
      order_s = Lit (formatted_amount_of b mkt), order_r = False, order_t = Gtc\<rparr>"

definition unwind_leg :: "bot \<Rightarrow> market \<Rightarrow> order" where
  "unwind_leg b mkt =
     \<lparr>order_a = spot_asset_id mkt, order_b = False,
      order_p = Lit ''0'',
      order_s = Lit (formatted_amount_of b mkt), order_r = False, order_t = Gtc\<rparr>"

text \<open>An answer that is a JSON object, so that \<open>.get('status')\<close> does not raise.\<close>

fun has_status :: "reply \<Rightarrow> bool" where
  "has_status (Returns (Object st)) = True"
| "has_status (Returns (Non_object t)) = False"
| "has_status (Raises err) = False"

section \<open>Auxiliary notions for the refresh loop\<close>

text \<open>
  The opportunities of a snapshot, read off a catalog: for every entry in snapshot
  order whose symbol is known and whose two numbers parse, the annualized rate, the
  mark price and the market as the catalog has it.
\<close>

fun opps_of :: "perp_info list \<Rightarrow> nat \<Rightarrow> ctx list \<Rightarrow> (string \<rightharpoonup> market) \<Rightarrow> opp list" where
  "opps_of u i [] ms = []"
| "opps_of u i (c # cs) ms =
     (case (ms (perp_name (u ! i)), funding c, markPx c) of
        (Some m, Inr r, Inr px) \<Rightarrow>
          \<lparr>opp_symbol = perp_name (u ! i), opp_funding_rate = annualize r,
           opp_mark_price = px, opp_market = m\<rparr> # opps_of u (Suc i) cs ms
      | _ \<Rightarrow> opps_of u (Suc i) cs ms)"

text \<open>
  \<open>sync T ms x\<close> lets the dictionary \<open>x\<close> see the Market object of its symbol
  as \<open>ms\<close> has it, for the symbols in \<open>T\<close>; \<open>touched\<close> are the symbols a
  run of the loop reads from the universe.
\<close>

definition sync :: "string set \<Rightarrow> (string \<rightharpoonup> market) \<Rightarrow> opp \<Rightarrow> opp" where
  "sync T ms x =
     (if opp_symbol x \<in> T
      then (case ms (opp_symbol x) of Some m \<Rightarrow> x\<lparr>opp_market := m\<rparr> | None \<Rightarrow> x)
      else x)"

definition touched :: "perp_info list \<Rightarrow> nat \<Rightarrow> ctx list \<Rightarrow> string set" where
  "touched u i cs = {k. \<exists>j<length cs. perp_name (u ! (i + j)) = k}"

section \<open>Invariants of the control loop\<close>

text \<open>Every market of the catalog is stored under its own symbol.\<close>

definition catalog_ok :: "(string \<rightharpoonup> market) \<Rightarrow> bool" where
  "catalog_ok ms = (\<forall>k m. ms k = Some m \<longrightarrow> symbol m = k)"

text \<open>
  The symbols of the invocations of \<open>execute_funding_arb\<close> that returned
  \<open>True\<close>, in order; and the invariant of the ledger: every invocation found its
  symbol absent from the ledger, no symbol was hedged twice, and the keys of the
  ledger are the hedged symbols.
\<close>

definition hedged :: "world \<Rightarrow> string list" where
  "hedged w = map (\<lambda>c. symbol (fst c)) (filter (\<lambda>c. snd (snd c)) (calls w))"

definition ledger_ok :: "bot \<times> world \<Rightarrow> bool" where
  "ledger_ok bw =
     ((\<forall>c\<in>set (calls (snd bw)). fst (snd c) (symbol (fst c)) = None)
      \<and> distinct (hedged (snd bw))
      \<and> dom (active_positions (fst bw)) = set (hedged (snd bw)))"

section \<open>Concrete inputs\<close>

text \<open>
  The scenario of the specification: the perpetual catalog lists BTC at index 0 with
  three size decimals, the spot catalog lists BTC/USDC with index 5; DOGE has no
  spot market.
\<close>

definition ex_perps :: "perp_info list" where
  "ex_perps = [\<lparr>perp_name = ''BTC'', szDecimals = 3\<rparr>,
               \<lparr>perp_name = ''DOGE'', szDecimals = 0\<rparr>]"

definition ex_spots :: "spot_info list" where
  "ex_spots = [\<lparr>spot_name = ''PURR/USDC'', spot_index = 0\<rparr>,
               \<lparr>spot_name = ''BTC/USDC'', spot_index = 5\<rparr>]"

definition btc0 :: market where
  "btc0 = \<lparr>symbol = ''BTC'', perp_asset_id = 0, spot_asset_id = 10005,
            funding_rate = 0, mark_price = 0, size_decimals = 3\<rparr>"

definition ex_catalog :: "string \<rightharpoonup> market" where
  "ex_catalog = [''BTC'' \<mapsto> btc0]"

text \<open>
  The catalog entry of BTC after a refresh with raw funding rate 0.001 and mark price
  50000, and the same market at a negative funding rate; the bot as \<open>main\<close>
  configures it.
\<close>

definition btc :: market where
  "btc = \<lparr>symbol = ''BTC'', perp_asset_id = 0, spot_asset_id = 10005,
           funding_rate = 36.5, mark_price = 50000, size_decimals = 3\<rparr>"


definition ex_bot :: bot where
  "ex_bot = \<lparr>min_funding_rate = 0.05, position_size_usd = 1000, max_slippage = 0.001,
              active_positions = Map.empty, markets = [''BTC'' \<mapsto> btc]\<rparr>"

definition ex_quote :: quote_reply where
  "ex_quote = Quote ex_perps [\<lparr>funding = Inr 0.001, markPx = Inr 50000\<rparr>,
                              \<lparr>funding = Inr 0.0005, markPx = Inr 0.1\<rparr>]"

text \<open>
  Exchanges: one that accepts every order; one that rejects every order; one that
  accepts the first order and rejects the later ones with status \<open>error\<close>; one that
  accepts the first order and is unreachable afterwards.
\<close>

definition env_ok :: env where
  "env_ok = \<lparr>exchange = (\<lambda>h ordr. Returns (Object (Some ''ok''))),
              clock = length, quote = ex_quote\<rparr>"

definition env_reject :: env where
  "env_reject = \<lparr>exchange = (\<lambda>h ordr. Returns (Object (Some ''error''))),
                  clock = length, quote = ex_quote\<rparr>"

definition env_perp_rejected :: env where
  "env_perp_rejected =
     \<lparr>exchange = (\<lambda>h ordr. if h = [] then Returns (Object (Some ''ok''))
                             else Returns (Object (Some ''error''))),
      clock = length, quote = ex_quote\<rparr>"

definition env_perp_down :: env where
  "env_perp_down =
     \<lparr>exchange = (\<lambda>h ordr. if h = [] then Returns (Object (Some ''ok''))
                             else Raises RequestException),
      clock = length, quote = ex_quote\<rparr>"

text \<open>
  A catalog of three markets and a snapshot in which ETH has the largest absolute
  rate (negative) and BTC and SOL have the same rate; in \<open>env_bad_quote\<close> the
  funding value of the second instrument does not parse, in \<open>env_no_quote\<close> the
  request fails.
\<close>

definition eth :: market where
  "eth = \<lparr>symbol = ''ETH'', perp_asset_id = 1, spot_asset_id = 10007,
           funding_rate = 0, mark_price = 0, size_decimals = 2\<rparr>"

definition sol :: market where
  "sol = \<lparr>symbol = ''SOL'', perp_asset_id = 2, spot_asset_id = 10009,
           funding_rate = 0, mark_price = 0, size_decimals = 1\<rparr>"

definition three_perps :: "perp_info list" where
  "three_perps = [\<lparr>perp_name = ''BTC'', szDecimals = 3\<rparr>,
                  \<lparr>perp_name = ''ETH'', szDecimals = 2\<rparr>,
                  \<lparr>perp_name = ''SOL'', szDecimals = 1\<rparr>,
                  \<lparr>perp_name = ''DOGE'', szDecimals = 0\<rparr>]"

definition three_bot :: bot where
  "three_bot = \<lparr>min_funding_rate = 0.05, position_size_usd = 1000, max_slippage = 0.001,
                 active_positions = Map.empty,
                 markets = [''BTC'' \<mapsto> btc0, ''ETH'' \<mapsto> eth, ''SOL'' \<mapsto> sol]\<rparr>"



definition env_bad_quote :: env where
  "env_bad_quote =
     \<lparr>exchange = (\<lambda>h ordr. Returns (Object (Some ''ok''))), clock = length,
      quote = Quote three_perps
                [\<lparr>funding = Inr 0.0001, markPx = Inr 50000\<rparr>,
                 \<lparr>funding = Inl ValueError, markPx = Inr 2500\<rparr>]\<rparr>"

definition env_no_quote :: env where
  "env_no_quote =
     \<lparr>exchange = (\<lambda>h ordr. Returns (Object (Some ''ok''))), clock = length,
      quote = Request_failed RequestException\<rparr>"

text \<open>
  The start of \<open>main\<close> on the catalogs of the scenario, and a snapshot in which the
  raw funding rate of BTC is 0.000002.
\<close>

definition ex_init :: "world \<times> (error + bot)" where
  "ex_init = init_bot (Some ''key'') (Some ''secret'') 0.05 1000 0.001
               (Inr ex_perps) (Inr ex_spots) world0"

definition ex_bot0 :: bot where
  "ex_bot0 = \<lparr>min_funding_rate = 0.05, position_size_usd = 1000, max_slippage = 0.001,
               active_positions = Map.empty, markets = ex_catalog\<rparr>"

definition small_ctxs :: "ctx list" where
  "small_ctxs = [\<lparr>funding = Inr 0.000002, markPx = Inr 50000\<rparr>,
                 \<lparr>funding = Inr 0.0005, markPx = Inr 0.1\<rparr>]"

definition env_small :: env where
  "env_small =
     \<lparr>exchange = (\<lambda>h ordr. Returns (Object (Some ''ok''))), clock = length,
      quote = Quote ex_perps small_ctxs\<rparr>"

section \<open>The outcomes of \<open>execute_funding_arb\<close>\<close>

lemma get_status_ok:
  "get_status (case r of Raises err \<Rightarrow> None | Returns j \<Rightarrow> Some j) = Inr (Some ''ok'') \<longleftrightarrow> accepted r"
  by (cases r; simp add: accepted_def; rename_tac j; case_tac j; auto)

lemma place_order_eq:
  "place_order e a ib p s w =
     (w\<lparr>sent := sent w @ [\<lparr>order_a = a, order_b = ib, order_p = p, order_s = s, order_r = False, order_t = Gtc\<rparr>],
        trace := trace w @ (case exchange e (sent w) \<lparr>order_a = a, order_b = ib, order_p = p, order_s = s, order_r = False, order_t = Gtc\<rparr> of
                   Raises err \<Rightarrow> [Exc ''Error placing order: '' err] | Returns j \<Rightarrow> [])\<rparr>,
      case exchange e (sent w) \<lparr>order_a = a, order_b = ib, order_p = p, order_s = s, order_r = False, order_t = Gtc\<rparr> of
        Raises err \<Rightarrow> None | Returns j \<Rightarrow> Some j)"
  by (simp add: place_order_def Let_def split: reply.splits)

lemma emergency_close_sent:
  "emergency_close e a s ib w = (w', r) \<Longrightarrow>
     sent w' = sent w @ [\<lparr>order_a = a, order_b = \<not> ib, order_p = Lit ''0'', order_s = s, order_r = False, order_t = Gtc\<rparr>]
     \<and> calls w' = calls w"
  by (auto simp: emergency_close_def place_order_eq split: if_splits sum.splits)

lemma get_status_Inr:
  "(\<exists>st. get_status (case r of Raises err \<Rightarrow> None | Returns j \<Rightarrow> Some j) = Inr st) \<longleftrightarrow> has_status r"
  by (cases r rule: has_status.cases) auto

lemma execute_no_order:
  assumes "mark_price mkt = 0 \<or> size_decimals mkt < 0"
  shows "execute_funding_arb e mkt fr (b, w) =
           ((b, w\<lparr>trace := trace w @ [Exc ''Error executing funding arbitrage: ''
                                        (if mark_price mkt = 0 then ZeroDivisionError else ValueError)],
                  calls := calls w @ [(mkt, active_positions b, False)]\<rparr>), False)"
  using assms by (auto simp: execute_funding_arb_def arb_body_def Let_def)

lemma execute_spot_rejected:
  assumes "execute_funding_arb e mkt fr (b, w) = ((b', w'), res)"
    and "mark_price mkt \<noteq> 0" and "0 \<le> size_decimals mkt"
    and "\<not> accepted (exchange e (sent w) (spot_leg b mkt))"
  shows "b' = b \<and> sent w' = sent w @ [spot_leg b mkt] \<and> \<not> res
         \<and> calls w' = calls w @ [(mkt, active_positions b, False)]"
  using assms
  unfolding execute_funding_arb_def arb_body_def Let_def place_order_eq spot_leg_def formatted_amount_of_def
  by (auto simp: get_status_ok[symmetric] split: if_splits sum.splits)

lemma execute_both_accepted:
  assumes "execute_funding_arb e mkt fr (b, w) = ((b', w'), res)"
    and "mark_price mkt \<noteq> 0" and "0 \<le> size_decimals mkt"
    and "accepted (exchange e (sent w) (spot_leg b mkt))"
    and "accepted (exchange e (sent w @ [spot_leg b mkt]) (perp_leg b mkt))"
  shows "b' = b\<lparr>active_positions := (active_positions b)(symbol mkt \<mapsto>
                  \<lparr>entry_time = clock e (sent w @ [spot_leg b mkt, perp_leg b mkt]),
                   pos_funding_rate = fr, pos_mark_price = mark_price mkt,
                   amount = position_size_usd b / mark_price mkt, pos_market = mkt\<rparr>)\<rparr>
         \<and> sent w' = sent w @ [spot_leg b mkt, perp_leg b mkt] \<and> res
         \<and> calls w' = calls w @ [(mkt, active_positions b, True)]"
  using assms
  unfolding execute_funding_arb_def arb_body_def Let_def place_order_eq spot_leg_def perp_leg_def formatted_amount_of_def
  by (auto simp: accepted_def split: if_splits sum.splits)

lemma execute_perp_rejected:
  assumes "execute_funding_arb e mkt fr (b, w) = ((b', w'), res)"
    and "mark_price mkt \<noteq> 0" and "0 \<le> size_decimals mkt"
    and "accepted (exchange e (sent w) (spot_leg b mkt))"
    and "exchange e (sent w @ [spot_leg b mkt]) (perp_leg b mkt) = Returns (Object st)"
    and "st \<noteq> Some ''ok''"
  shows "b' = b \<and> sent w' = sent w @ [spot_leg b mkt, perp_leg b mkt, unwind_leg b mkt] \<and> \<not> res
         \<and> calls w' = calls w @ [(mkt, active_positions b, False)]"
  using assms
  unfolding execute_funding_arb_def arb_body_def Let_def place_order_eq emergency_close_def
    spot_leg_def perp_leg_def unwind_leg_def formatted_amount_of_def
  by (auto simp: accepted_def split: if_splits sum.splits)

lemma execute_perp_no_status:
  assumes "execute_funding_arb e mkt fr (b, w) = ((b', w'), res)"
    and "mark_price mkt \<noteq> 0" and "0 \<le> size_decimals mkt"
    and "accepted (exchange e (sent w) (spot_leg b mkt))"
    and "\<not> has_status (exchange e (sent w @ [spot_leg b mkt]) (perp_leg b mkt))"
  shows "b' = b \<and> sent w' = sent w @ [spot_leg b mkt, perp_leg b mkt] \<and> \<not> res
         \<and> calls w' = calls w @ [(mkt, active_positions b, False)]"
  using assms
  unfolding execute_funding_arb_def arb_body_def Let_def place_order_eq emergency_close_def
    spot_leg_def perp_leg_def unwind_leg_def formatted_amount_of_def
  by (auto simp: accepted_def get_status_Inr[symmetric] split: if_splits sum.splits)
section \<open>The catalog\<close>

lemma find_spot_find:
  "find_spot symb spots = List.find (\<lambda>s. split_slash_0 (spot_name s) = symb) spots"
  by (induction spots) auto

lemma find_spot_None_iff:
  "find_spot symb spots = None \<longleftrightarrow> (\<forall>s\<in>set spots. split_slash_0 (spot_name s) \<noteq> symb)"
  by (induction spots) auto

lemma map_markets_other:
  "\<forall>p\<in>set perps. perp_name p \<noteq> k \<Longrightarrow> map_markets i perps spots ms k = ms k"
  by (induction perps arbitrary: i ms) (auto split: option.splits)

lemma map_markets_dom:
  "dom (map_markets i perps spots ms) =
     dom ms \<union> {k. (\<exists>p\<in>set perps. perp_name p = k) \<and> find_spot k spots \<noteq> None}"
proof (induction perps arbitrary: i ms)
  case Nil
  then show ?case by simp
next
  case (Cons p perps)
  show ?case
    by (cases "find_spot (perp_name p) spots") (auto simp: Cons.IH split: if_splits)
qed

lemma map_markets_last:
  assumes "j < length perps"
    and "perp_name (perps ! j) = k"
    and "\<forall>j'. j < j' \<and> j' < length perps \<longrightarrow> perp_name (perps ! j') \<noteq> k"
    and "find_spot k spots = Some s"
  shows "map_markets i perps spots ms k =
           Some \<lparr>symbol = k, perp_asset_id = int (i + j),
                 spot_asset_id = 10000 + spot_index s, funding_rate = 0,
                 mark_price = 0, size_decimals = szDecimals (perps ! j)\<rparr>"
  using assms
proof (induction perps arbitrary: i ms j)
  case Nil
  then show ?case by simp
next
  case (Cons p perps)
  show ?case
  proof (cases j)
    case 0
    have "\<forall>q\<in>set perps. perp_name q \<noteq> k"
    proof
      fix q assume "q \<in> set perps"
      then obtain n where n: "n < length perps" "perps ! n = q"
        by (auto simp: in_set_conv_nth)
      with Cons.prems(3) 0 have "perp_name ((p # perps) ! Suc n) \<noteq> k" by auto
      with n show "perp_name q \<noteq> k" by simp
    qed
    then show ?thesis
      using Cons.prems 0 by (simp add: map_markets_other)
  next
    case (Suc n)
    have a: "n < length perps" "perp_name (perps ! n) = k"
      using Cons.prems Suc by auto
    have b: "\<forall>j'. n < j' \<and> j' < length perps \<longrightarrow> perp_name (perps ! j') \<noteq> k"
    proof (intro allI impI)
      fix j' assume "n < j' \<and> j' < length perps"
      with Cons.prems(3) Suc have "perp_name ((p # perps) ! Suc j') \<noteq> k" by auto
      then show "perp_name (perps ! j') \<noteq> k" by simp
    qed
    show ?thesis
      using Cons.IH [OF a b Cons.prems(4)] Suc
      by (auto split: option.splits)
  qed
qed

text \<open>
  Claim C6. For all answers to the two catalog requests, \<open>initialize_markets\<close>
  returns a catalog whose keys are exactly the names that occur both as a perpetual
  name and as the base asset (the part before the first slash) of a spot name. The
  market stored under such a name has the index of the (last) perpetual of that name
  as perp identifier, 10000 plus the \<open>index\<close> field of the first spot
  entry with that base asset as spot identifier, and the perpetual's size decimals.
  A name with no matching spot entry is not a key.
\<close>

theorem C6_catalog:
  assumes "initialize_markets (Inr perps) (Inr spots) Map.empty w = (w', r)"
  shows "\<exists>ms. r = Inr ms
     \<and> dom ms = {k. (\<exists>p\<in>set perps. perp_name p = k)
                     \<and> (\<exists>s\<in>set spots. split_slash_0 (spot_name s) = k)}
     \<and> (\<forall>j s. j < length perps
            \<and> (\<forall>j'. j < j' \<and> j' < length perps \<longrightarrow> perp_name (perps ! j') \<noteq> perp_name (perps ! j))
            \<and> List.find (\<lambda>s. split_slash_0 (spot_name s) = perp_name (perps ! j)) spots = Some s
          \<longrightarrow> ms (perp_name (perps ! j)) =
                Some \<lparr>symbol = perp_name (perps ! j), perp_asset_id = int j,
                      spot_asset_id = 10000 + spot_index s, funding_rate = 0,
                      mark_price = 0, size_decimals = szDecimals (perps ! j)\<rparr>)"
proof -
  let ?ms = "map_markets 0 perps spots Map.empty"
  have 1: "r = Inr ?ms"
    using assms by (auto simp: initialize_markets_def Let_def)
  have 2: "dom ?ms = {k. (\<exists>p\<in>set perps. perp_name p = k)
                     \<and> (\<exists>s\<in>set spots. split_slash_0 (spot_name s) = k)}"
    by (auto simp: map_markets_dom find_spot_None_iff)
  have 3: "?ms (perp_name (perps ! j)) =
                Some \<lparr>symbol = perp_name (perps ! j), perp_asset_id = int j,
                      spot_asset_id = 10000 + spot_index s, funding_rate = 0,
                      mark_price = 0, size_decimals = szDecimals (perps ! j)\<rparr>"
    if "j < length perps"
      "\<forall>j'. j < j' \<and> j' < length perps \<longrightarrow> perp_name (perps ! j') \<noteq> perp_name (perps ! j)"
      "List.find (\<lambda>s. split_slash_0 (spot_name s) = perp_name (perps ! j)) spots = Some s"
    for j s
    using map_markets_last [of j perps "perp_name (perps ! j)" spots s 0 Map.empty] that
    by (simp add: find_spot_find)
  show ?thesis
    apply (rule exI [of _ ?ms])
    apply (intro conjI allI impI)
      apply (rule 1)
     apply (rule 2)
    apply (rule 3)
      apply simp_all
    done
qed

theorem C6_catalog_witness:
  "snd (initialize_markets (Inr ex_perps) (Inr ex_spots) Map.empty world0) = Inr ex_catalog
   \<and> dom ex_catalog = {''BTC''}
   \<and> ex_catalog ''BTC'' =
       Some \<lparr>symbol = ''BTC'', perp_asset_id = 0, spot_asset_id = 10000 + 5,
             funding_rate = 0, mark_price = 0, size_decimals = 3\<rparr>
   \<and> ex_catalog ''DOGE'' = None"
proof -
  let ?run = "initialize_markets (Inr ex_perps) (Inr ex_spots) Map.empty world0"
  have h: "?run = (fst ?run, snd ?run)" by simp
  from C6_catalog [OF h] obtain ms where
    ms: "snd ?run = Inr ms"
    and d: "dom ms = {k. (\<exists>p\<in>set ex_perps. perp_name p = k)
                     \<and> (\<exists>s\<in>set ex_spots. split_slash_0 (spot_name s) = k)}"
    and v: "\<forall>j s. j < length ex_perps
            \<and> (\<forall>j'. j < j' \<and> j' < length ex_perps \<longrightarrow>
                   perp_name (ex_perps ! j') \<noteq> perp_name (ex_perps ! j))
            \<and> List.find (\<lambda>s. split_slash_0 (spot_name s) = perp_name (ex_perps ! j)) ex_spots
                = Some s
          \<longrightarrow> ms (perp_name (ex_perps ! j)) =
                Some \<lparr>symbol = perp_name (ex_perps ! j), perp_asset_id = int j,
                      spot_asset_id = 10000 + spot_index s, funding_rate = 0,
                      mark_price = 0, size_decimals = szDecimals (ex_perps ! j)\<rparr>"
    by blast
  have e: "snd ?run = Inr ex_catalog"
    by (simp add: initialize_markets_def ex_perps_def ex_spots_def ex_catalog_def btc0_def
        split_slash_0_def Let_def)
  with ms have "ms = ex_catalog" by simp
  moreover have "dom ms = {''BTC''}"
    unfolding d by (auto simp: ex_perps_def ex_spots_def split_slash_0_def)
  moreover have "ms ''BTC'' =
       Some \<lparr>symbol = ''BTC'', perp_asset_id = 0, spot_asset_id = 10000 + 5,
             funding_rate = 0, mark_price = 0, size_decimals = 3\<rparr>"
  proof -
    have len: "0 < length ex_perps"
      by (simp add: ex_perps_def)
    have last: "\<forall>j'. 0 < j' \<and> j' < length ex_perps \<longrightarrow>
                   perp_name (ex_perps ! j') \<noteq> perp_name (ex_perps ! 0)"
      by (auto simp: ex_perps_def less_Suc_eq)
    have found: "List.find (\<lambda>s. split_slash_0 (spot_name s) = perp_name (ex_perps ! 0)) ex_spots
                = Some \<lparr>spot_name = ''BTC/USDC'', spot_index = 5\<rparr>"
      by (simp add: ex_perps_def ex_spots_def split_slash_0_def)
    from v [rule_format, OF conjI [OF len conjI [OF last found]]]
    show ?thesis by (simp add: ex_perps_def)
  qed
  moreover have "ms ''DOGE'' = None"
  proof -
    have "''DOGE'' \<notin> dom ms"
      unfolding \<open>dom ms = {''BTC''}\<close> by simp
    then show ?thesis by (simp add: domIff)
  qed
  ultimately show ?thesis using e by simp
qed
section \<open>The refresh loop\<close>

lemma refresh_loop_Cons_known:
  assumes "i < length u" "ms (perp_name (u ! i)) = Some m" "funding c = Inr r" "markPx c = Inr px"
  shows "refresh_loop u i (c # cs) ms opps =
           refresh_loop u (Suc i) cs
             (ms(perp_name (u ! i) \<mapsto> m\<lparr>funding_rate := annualize r, mark_price := px\<rparr>))
             (map (\<lambda>x. if opp_symbol x = perp_name (u ! i)
                        then x\<lparr>opp_market := m\<lparr>funding_rate := annualize r, mark_price := px\<rparr>\<rparr>
                        else x) opps @
              [\<lparr>opp_symbol = perp_name (u ! i), opp_funding_rate = annualize r,
                opp_mark_price = px,
                opp_market = m\<lparr>funding_rate := annualize r, mark_price := px\<rparr>\<rparr>])"
  using assms by (simp add: Let_def)

lemma refresh_loop_Cons_unknown:
  assumes "i < length u" "ms (perp_name (u ! i)) = None"
  shows "refresh_loop u i (c # cs) ms opps = refresh_loop u (Suc i) cs ms opps"
  using assms by (simp add: Let_def)

lemma refresh_loop_Cons_Inr:
  assumes "refresh_loop u i (c # cs) ms opps = (ms', Inr opps')"
  shows "i < length u \<and>
         (ms (perp_name (u ! i)) \<noteq> None \<longrightarrow> (\<exists>r px. funding c = Inr r \<and> markPx c = Inr px))"
  using assms by (auto simp: Let_def split: if_splits sum.splits)

lemma refresh_loop_dom:
  "dom (fst (refresh_loop u i cs ms opps)) = dom ms"
proof (induction cs arbitrary: i ms opps)
  case Nil
  then show ?case by simp
next
  case (Cons c cs)
  show ?case
    by (auto simp: Let_def Cons.IH split: option.splits sum.splits if_splits)
qed

lemma refresh_loop_other:
  "\<forall>j<length cs. i + j < length u \<longrightarrow> perp_name (u ! (i + j)) \<noteq> k \<Longrightarrow>
     fst (refresh_loop u i cs ms opps) k = ms k"
proof (induction cs arbitrary: i ms opps)
  case Nil
  then show ?case by simp
next
  case (Cons c cs)
  have rest: "\<forall>j<length cs. Suc i + j < length u \<longrightarrow> perp_name (u ! (Suc i + j)) \<noteq> k"
  proof (intro allI impI)
    fix j assume "j < length cs" "Suc i + j < length u"
    with Cons.prems have "perp_name (u ! (i + Suc j)) \<noteq> k" by auto
    then show "perp_name (u ! (Suc i + j)) \<noteq> k" by simp
  qed
  have hd: "i < length u \<Longrightarrow> perp_name (u ! i) \<noteq> k"
    using Cons.prems by (auto dest: spec [of _ 0])
  show ?case
    using hd by (auto simp: Let_def Cons.IH [OF rest] split: option.splits sum.splits)
qed

lemma refresh_loop_success:
  assumes "i + length cs \<le> length u"
    and "\<forall>j<length cs. ms (perp_name (u ! (i + j))) \<noteq> None \<longrightarrow>
           (\<exists>r. funding (cs ! j) = Inr r) \<and> (\<exists>px. markPx (cs ! j) = Inr px)"
  shows "\<exists>opps'. snd (refresh_loop u i cs ms opps) = Inr opps'"
  using assms
proof (induction cs arbitrary: i ms opps)
  case Nil
  then show ?case by simp
next
  case (Cons c cs)
  have len: "Suc i + length cs \<le> length u" "i < length u"
    using Cons.prems(1) by auto
  have hd: "ms (perp_name (u ! i)) \<noteq> None \<longrightarrow>
           (\<exists>r. funding c = Inr r) \<and> (\<exists>px. markPx c = Inr px)"
    using Cons.prems(2) by (auto dest: spec [of _ 0])
  have rest: "\<forall>j<length cs. ms' (perp_name (u ! (Suc i + j))) \<noteq> None \<longrightarrow>
           (\<exists>r. funding (cs ! j) = Inr r) \<and> (\<exists>px. markPx (cs ! j) = Inr px)"
    if "dom ms' = dom ms" for ms'
  proof (intro allI impI)
    fix j assume j: "j < length cs" "ms' (perp_name (u ! (Suc i + j))) \<noteq> None"
    with that have "ms (perp_name (u ! (i + Suc j))) \<noteq> None"
      by (auto simp: domIff set_eq_iff)
    with Cons.prems(2) j(1)
    have "(\<exists>r. funding ((c # cs) ! Suc j) = Inr r) \<and> (\<exists>px. markPx ((c # cs) ! Suc j) = Inr px)"
      by (metis Suc_less_eq length_Cons)
    then show "(\<exists>r. funding (cs ! j) = Inr r) \<and> (\<exists>px. markPx (cs ! j) = Inr px)"
      by simp
  qed
  show ?case
  proof (cases "ms (perp_name (u ! i))")
    case None
    show ?thesis
      unfolding refresh_loop_Cons_unknown [where ms = ms, OF len(2) None]
      by (rule Cons.IH [OF len(1) rest]) simp
  next
    case (Some m)
    then obtain r px where rp: "funding c = Inr r" "markPx c = Inr px"
      using hd by auto
    let ?ms' = "ms(perp_name (u ! i) \<mapsto> m\<lparr>funding_rate := annualize r, mark_price := px\<rparr>)"
    have d: "dom ?ms' = dom ms" using Some by auto
    show ?thesis
      unfolding refresh_loop_Cons_known [where ms = ms, OF len(2) Some rp]
      by (rule Cons.IH [OF len(1) rest [OF d]])
  qed
qed


lemma touched_Nil [simp]: "touched u i [] = {}"
  by (simp add: touched_def)

lemma touched_Cons: "touched u i (c # cs) = insert (perp_name (u ! i)) (touched u (Suc i) cs)"
proof -
  have "(\<exists>j<Suc (length cs). perp_name (u ! (i + j)) = k)
        \<longleftrightarrow> perp_name (u ! i) = k \<or> (\<exists>j<length cs. perp_name (u ! (Suc i + j)) = k)" for k
  proof
    assume "\<exists>j<Suc (length cs). perp_name (u ! (i + j)) = k"
    then obtain j where j: "j < Suc (length cs)" "perp_name (u ! (i + j)) = k" by blast
    show "perp_name (u ! i) = k \<or> (\<exists>j<length cs. perp_name (u ! (Suc i + j)) = k)"
    proof (cases j)
      case 0
      with j show ?thesis by simp
    next
      case (Suc n)
      with j have "n < length cs" "perp_name (u ! (Suc i + n)) = k" by simp_all
      then show ?thesis by blast
    qed
  next
    assume "perp_name (u ! i) = k \<or> (\<exists>j<length cs. perp_name (u ! (Suc i + j)) = k)"
    then show "\<exists>j<Suc (length cs). perp_name (u ! (i + j)) = k"
    proof
      assume "perp_name (u ! i) = k"
      then have "0 < Suc (length cs) \<and> perp_name (u ! (i + 0)) = k" by simp
      then show ?thesis by blast
    next
      assume "\<exists>j<length cs. perp_name (u ! (Suc i + j)) = k"
      then obtain j where "j < length cs" "perp_name (u ! (Suc i + j)) = k" by blast
      then have "Suc j < Suc (length cs) \<and> perp_name (u ! (i + Suc j)) = k" by simp
      then show ?thesis by blast
    qed
  qed
  then show ?thesis
    by (auto simp: touched_def)
qed

lemma refresh_loop_untouched:
  assumes "k \<notin> touched u i cs"
  shows "fst (refresh_loop u i cs ms opps) k = ms k"
  by (rule refresh_loop_other) (use assms in \<open>auto simp: touched_def\<close>)

lemma refresh_loop_dom_eq:
  assumes "refresh_loop u i cs ms opps = (ms', r)"
  shows "dom ms' = dom ms"
  using refresh_loop_dom [of u i cs ms opps] assms by simp

lemma refresh_loop_opps:
  assumes "refresh_loop u i cs ms opps = (ms', Inr opps')"
  shows "opps' = map (sync (touched u i cs \<inter> dom ms) ms') opps @ opps_of u i cs ms'"
  using assms
proof (induction cs arbitrary: i ms opps)
  case Nil
  have "map (sync {} ms') opps = opps"
    by (induction opps) (simp_all add: sync_def)
  with Nil show ?case by simp
next
  case (Cons c cs)
  note inv = refresh_loop_Cons_Inr [OF Cons.prems]
  then have inr: "i < length u" by simp
  let ?s = "perp_name (u ! i)"
  let ?T1 = "touched u (Suc i) cs"
  have dom': "dom ms' = dom ms"
    by (rule refresh_loop_dom_eq [OF Cons.prems])
  show ?case
  proof (cases "ms ?s")
    case None
    note run = Cons.prems [unfolded refresh_loop_Cons_unknown [where ms = ms, OF inr None]]
    have "?s \<notin> dom ms" using None by (simp add: domIff)
    then have T: "touched u i (c # cs) \<inter> dom ms = ?T1 \<inter> dom ms"
      by (auto simp: touched_Cons)
    have "ms' ?s = None"
      using \<open>?s \<notin> dom ms\<close> dom' by (auto simp: domIff)
    then have "opps_of u i (c # cs) ms' = opps_of u (Suc i) cs ms'" by simp
    with Cons.IH [OF run] T show ?thesis by simp
  next
    case (Some m0)
    from inv Some obtain r px where rp: "funding c = Inr r" "markPx c = Inr px" by auto
    let ?m2 = "m0\<lparr>funding_rate := annualize r, mark_price := px\<rparr>"
    let ?ms1 = "ms(?s \<mapsto> ?m2)"
    let ?upd = "\<lambda>x. if opp_symbol x = ?s then x\<lparr>opp_market := ?m2\<rparr> else x"
    let ?new = "\<lparr>opp_symbol = ?s, opp_funding_rate = annualize r, opp_mark_price = px,
                 opp_market = ?m2\<rparr>"
    note run = Cons.prems [unfolded refresh_loop_Cons_known [where ms = ms, OF inr Some rp]]
    have d1: "dom ?ms1 = dom ms" using Some by auto
    have sd: "?s \<in> dom ms" using Some by (simp add: domIff)
    then obtain mf where mf: "ms' ?s = Some mf"
      using dom' by (auto simp: domIff)
    have fresh: "mf = ?m2" if "?s \<notin> ?T1"
    proof -
      have "fst (refresh_loop u (Suc i) cs ?ms1 (map ?upd opps @ [?new])) ?s = ?ms1 ?s"
        by (rule refresh_loop_untouched [OF that])
      with run mf show ?thesis by simp
    qed
    have T: "touched u i (c # cs) \<inter> dom ms = insert ?s (?T1 \<inter> dom ms)"
      using sd by (auto simp: touched_Cons)
    have new: "sync (?T1 \<inter> dom ms) ms' ?new =
               \<lparr>opp_symbol = ?s, opp_funding_rate = annualize r, opp_mark_price = px,
                opp_market = mf\<rparr>"
      using mf fresh sd by (auto simp: sync_def)
    have old: "sync (?T1 \<inter> dom ms) ms' (?upd x) = sync (insert ?s (?T1 \<inter> dom ms)) ms' x" for x
      using mf fresh sd by (auto simp: sync_def split: option.splits)
    have "opps_of u i (c # cs) ms' =
            \<lparr>opp_symbol = ?s, opp_funding_rate = annualize r, opp_mark_price = px,
             opp_market = mf\<rparr> # opps_of u (Suc i) cs ms'"
      using mf rp by simp
    moreover have "opps' = map (sync (?T1 \<inter> dom ms) ms') (map ?upd opps @ [?new])
                     @ opps_of u (Suc i) cs ms'"
      using Cons.IH [OF run, unfolded d1] .
    ultimately show ?thesis
      unfolding T by (simp add: new old)
  qed
qed




lemma refresh_loop_Inr_well_formed:
  assumes "refresh_loop u i cs ms opps = (ms', Inr opps')"
  shows "(cs \<noteq> [] \<longrightarrow> i + length cs \<le> length u)
       \<and> (\<forall>j<length cs. ms (perp_name (u ! (i + j))) \<noteq> None \<longrightarrow>
             (\<exists>r. funding (cs ! j) = Inr r) \<and> (\<exists>px. markPx (cs ! j) = Inr px))"
  using assms
proof (induction cs arbitrary: i ms opps)
  case Nil
  then show ?case by (simp split: if_splits)
next
  case (Cons c cs)
  note inv = refresh_loop_Cons_Inr [OF Cons.prems]
  then have inr: "i < length u" by simp
  let ?s = "perp_name (u ! i)"
  have step: "\<exists>ms1 opps1. dom ms1 = dom ms
                \<and> refresh_loop u (Suc i) cs ms1 opps1 = (ms', Inr opps')"
  proof (cases "ms ?s")
    case None
    from Cons.prems [unfolded refresh_loop_Cons_unknown [where ms = ms, OF inr None]]
    show ?thesis by blast
  next
    case (Some m)
    from inv Some obtain r px where rp: "funding c = Inr r" "markPx c = Inr px" by auto
    have "dom (ms(?s \<mapsto> m\<lparr>funding_rate := annualize r, mark_price := px\<rparr>)) = dom ms"
      using Some by auto
    with Cons.prems [unfolded refresh_loop_Cons_known [where ms = ms, OF inr Some rp]]
    show ?thesis by blast
  qed
  then obtain ms1 opps1 where d: "dom ms1 = dom ms"
    and run: "refresh_loop u (Suc i) cs ms1 opps1 = (ms', Inr opps')" by blast
  from Cons.IH [OF run] have len: "cs \<noteq> [] \<longrightarrow> Suc i + length cs \<le> length u"
    and rest: "\<forall>j<length cs. ms1 (perp_name (u ! (Suc i + j))) \<noteq> None \<longrightarrow>
             (\<exists>r. funding (cs ! j) = Inr r) \<and> (\<exists>px. markPx (cs ! j) = Inr px)"
    by blast+
  have "(\<exists>r. funding ((c # cs) ! j) = Inr r) \<and> (\<exists>px. markPx ((c # cs) ! j) = Inr px)"
    if j: "j < length (c # cs)" and k: "ms (perp_name (u ! (i + j))) \<noteq> None" for j
  proof (cases j)
    case 0
    with inv k show ?thesis by auto
  next
    case (Suc n)
    with j have n: "n < length cs" by simp
    from k Suc have "perp_name (u ! (Suc i + n)) \<in> dom ms" by (simp add: domIff)
    then have "ms1 (perp_name (u ! (Suc i + n))) \<noteq> None"
      unfolding d [symmetric] by (simp add: domIff)
    with rest n Suc show ?thesis by simp
  qed
  moreover have "i + length (c # cs) \<le> length u"
    using len inr by (cases cs) auto
  ultimately show ?case by simp
qed

lemma refresh_loop_fails_iff:
  "isl (snd (refresh_loop u 0 cs ms opps)) \<longleftrightarrow>
     \<not> (length cs \<le> length u
        \<and> (\<forall>j<length cs. ms (perp_name (u ! j)) \<noteq> None \<longrightarrow>
              (\<exists>r. funding (cs ! j) = Inr r) \<and> (\<exists>px. markPx (cs ! j) = Inr px)))"
proof
  assume f: "isl (snd (refresh_loop u 0 cs ms opps))"
  show "\<not> (length cs \<le> length u
        \<and> (\<forall>j<length cs. ms (perp_name (u ! j)) \<noteq> None \<longrightarrow>
              (\<exists>r. funding (cs ! j) = Inr r) \<and> (\<exists>px. markPx (cs ! j) = Inr px)))"
  proof
    assume "length cs \<le> length u
        \<and> (\<forall>j<length cs. ms (perp_name (u ! j)) \<noteq> None \<longrightarrow>
              (\<exists>r. funding (cs ! j) = Inr r) \<and> (\<exists>px. markPx (cs ! j) = Inr px))"
    then obtain opps' where "snd (refresh_loop u 0 cs ms opps) = Inr opps'"
      using refresh_loop_success [of 0 cs u ms opps] by auto
    with f show False by simp
  qed
next
  assume n: "\<not> (length cs \<le> length u
        \<and> (\<forall>j<length cs. ms (perp_name (u ! j)) \<noteq> None \<longrightarrow>
              (\<exists>r. funding (cs ! j) = Inr r) \<and> (\<exists>px. markPx (cs ! j) = Inr px)))"
  show "isl (snd (refresh_loop u 0 cs ms opps))"
  proof (rule ccontr)
    assume "\<not> isl (snd (refresh_loop u 0 cs ms opps))"
    moreover obtain ms' res where run: "refresh_loop u 0 cs ms opps = (ms', res)"
      by (cases "refresh_loop u 0 cs ms opps")
    ultimately obtain opps' where "refresh_loop u 0 cs ms opps = (ms', Inr opps')"
      by (cases res) auto
    from refresh_loop_Inr_well_formed [OF this] n show False
      by (cases cs) auto
  qed
qed
section \<open>Claims about the hedge execution\<close>

lemma reply_cases:
  obtains "accepted r" | st where "r = Returns (Object st)" "st \<noteq> Some ''ok''" | "\<not> has_status r"
  by (cases r rule: has_status.cases) (auto simp: accepted_def)

lemma accepted_has_status: "accepted r \<Longrightarrow> has_status r"
  by (simp add: accepted_def)

lemma execute_cases:
  assumes "execute_funding_arb e mkt fr (b, w) = ((b', w'), res)"
  obtains
    (no_order) "mark_price mkt = 0 \<or> size_decimals mkt < 0"
      "b' = b" "sent w' = sent w" "\<not> res"
  | (spot_rejected) "mark_price mkt \<noteq> 0" "0 \<le> size_decimals mkt"
      "\<not> accepted (exchange e (sent w) (spot_leg b mkt))"
      "b' = b" "sent w' = sent w @ [spot_leg b mkt]" "\<not> res"
  | (opened) "mark_price mkt \<noteq> 0" "0 \<le> size_decimals mkt"
      "accepted (exchange e (sent w) (spot_leg b mkt))"
      "accepted (exchange e (sent w @ [spot_leg b mkt]) (perp_leg b mkt))"
      "b' = b\<lparr>active_positions := (active_positions b)(symbol mkt \<mapsto>
                  \<lparr>entry_time = clock e (sent w @ [spot_leg b mkt, perp_leg b mkt]),
                   pos_funding_rate = fr, pos_mark_price = mark_price mkt,
                   amount = position_size_usd b / mark_price mkt, pos_market = mkt\<rparr>)\<rparr>"
      "sent w' = sent w @ [spot_leg b mkt, perp_leg b mkt]" "res"
  | (unwound) st where "mark_price mkt \<noteq> 0" "0 \<le> size_decimals mkt"
      "accepted (exchange e (sent w) (spot_leg b mkt))"
      "exchange e (sent w @ [spot_leg b mkt]) (perp_leg b mkt) = Returns (Object st)"
      "st \<noteq> Some ''ok''"
      "b' = b" "sent w' = sent w @ [spot_leg b mkt, perp_leg b mkt, unwind_leg b mkt]" "\<not> res"
  | (perp_raised) "mark_price mkt \<noteq> 0" "0 \<le> size_decimals mkt"
      "accepted (exchange e (sent w) (spot_leg b mkt))"
      "\<not> has_status (exchange e (sent w @ [spot_leg b mkt]) (perp_leg b mkt))"
      "b' = b" "sent w' = sent w @ [spot_leg b mkt, perp_leg b mkt]" "\<not> res"
proof (cases "mark_price mkt = 0 \<or> size_decimals mkt < 0")
  case True
  from execute_no_order [OF True, of e fr b w] assms
  have "b' = b" "sent w' = sent w" "\<not> res" by auto
  with True show ?thesis by (rule no_order)
next
  case False
  then have ok: "mark_price mkt \<noteq> 0" "0 \<le> size_decimals mkt" by auto
  show ?thesis
  proof (cases "accepted (exchange e (sent w) (spot_leg b mkt))")
    case False
    from execute_spot_rejected [OF assms ok False] ok False
    show ?thesis using spot_rejected by blast
  next
    case True
    show ?thesis
    proof (cases "exchange e (sent w @ [spot_leg b mkt]) (perp_leg b mkt)" rule: reply_cases)
      case 1
      from execute_both_accepted [OF assms ok True 1] ok True 1
      show ?thesis using opened by blast
    next
      case (2 st)
      from execute_perp_rejected [OF assms ok True 2] ok True 2
      show ?thesis using unwound by blast
    next
      case 3
      from execute_perp_no_status [OF assms ok True 3] ok True 3
      show ?thesis using perp_raised by blast
    qed
  qed
qed

text \<open>
  Claim C1. For every market, funding rate, state and exchange: if
  \<open>execute_funding_arb\<close> changes the ledger or returns \<open>True\<close>, then the
  exchange answered both the spot order and the perp order with status \<open>ok\<close> (and
  exactly these two orders were submitted). If the answer to the spot order is not
  an acceptance (any other status, no status, not a JSON object, or the submission
  raised), then at most the spot order is submitted (no perp order), the ledger is
  unchanged and the call returns \<open>False\<close>.
\<close>

theorem C1_ledger_needs_both_legs:
  assumes "execute_funding_arb e mkt fr (b, w) = ((b', w'), res)"
  shows "(active_positions b' \<noteq> active_positions b \<or> res \<longrightarrow>
            accepted (exchange e (sent w) (spot_leg b mkt))
          \<and> accepted (exchange e (sent w @ [spot_leg b mkt]) (perp_leg b mkt))
          \<and> sent w' = sent w @ [spot_leg b mkt, perp_leg b mkt])
       \<and> (\<not> accepted (exchange e (sent w) (spot_leg b mkt)) \<longrightarrow>
            (sent w' = sent w \<or> sent w' = sent w @ [spot_leg b mkt])
          \<and> active_positions b' = active_positions b
          \<and> \<not> res)"
  using assms by (cases rule: execute_cases) auto

lemma format_scenario: "format_f 3 (1000 / 50000) = ''0.020''"
  by code_simp

lemma spot_leg_btc:
  "spot_leg ex_bot btc =
     \<lparr>order_a = 10005, order_b = True, order_p = Str_float 50050,
      order_s = Lit ''0.020'', order_r = False, order_t = Gtc\<rparr>"
  using format_scenario
  by (simp add: spot_leg_def formatted_amount_of_def ex_bot_def btc_def)

lemma perp_leg_btc:
  "perp_leg ex_bot btc =
     \<lparr>order_a = 0, order_b = False, order_p = Str_float 49950,
      order_s = Lit ''0.020'', order_r = False, order_t = Gtc\<rparr>"
  using format_scenario
  by (simp add: perp_leg_def formatted_amount_of_def ex_bot_def btc_def)

lemma unwind_leg_btc:
  "unwind_leg ex_bot btc =
     \<lparr>order_a = 10005, order_b = False, order_p = Lit ''0'',
      order_s = Lit ''0.020'', order_r = False, order_t = Gtc\<rparr>"
  using format_scenario
  by (simp add: unwind_leg_def formatted_amount_of_def ex_bot_def btc_def)


theorem C1_ledger_needs_both_legs_witness:
  "\<not> accepted (exchange env_reject (sent world0) (spot_leg ex_bot btc))
   \<and> (sent (snd (fst (execute_funding_arb env_reject btc 36.5 (ex_bot, world0)))) = sent world0
      \<or> sent (snd (fst (execute_funding_arb env_reject btc 36.5 (ex_bot, world0))))
          = sent world0 @ [spot_leg ex_bot btc])
   \<and> active_positions (fst (fst (execute_funding_arb env_reject btc 36.5 (ex_bot, world0))))
       = active_positions ex_bot
   \<and> \<not> snd (execute_funding_arb env_reject btc 36.5 (ex_bot, world0))"
proof -
  let ?R = "execute_funding_arb env_reject btc 36.5 (ex_bot, world0)"
  have h: "?R = ((fst (fst ?R), snd (fst ?R)), snd ?R)" by simp
  have n: "\<not> accepted (exchange env_reject (sent world0) (spot_leg ex_bot btc))"
    by (simp add: env_reject_def accepted_def)
  from C1_ledger_needs_both_legs [OF h] n show ?thesis by blast
qed

text \<open>
  Claim C2, at the input where it fails. BTC (mark price 50000, three size
  decimals), notional 1000, slippage 0.001; the exchange accepts the spot order and
  the submission of the perp order raises. \<open>_place_order\<close> logs and returns
  \<open>None\<close>, \<open>perp_order.get\<close> raises \<open>AttributeError\<close>, and the handler of
  \<open>execute_funding_arb\<close> returns \<open>False\<close>: two orders have been submitted, the
  spot buy and the perp sell, and no unwind order. (When the perp order is answered
  by a JSON object whose status is not \<open>ok\<close>, exactly one unwind order follows:
  \<open>execute_perp_rejected\<close>.)
\<close>

theorem C2_no_unwind_when_perp_submission_raises:
  "exchange env_perp_down [] (spot_leg ex_bot btc) = Returns (Object (Some ''ok''))
   \<and> exchange env_perp_down [spot_leg ex_bot btc] (perp_leg ex_bot btc) = Raises RequestException
   \<and> sent (snd (fst (execute_funding_arb env_perp_down btc 36.5 (ex_bot, world0))))
       = [\<lparr>order_a = 10005, order_b = True, order_p = Str_float 50050,
           order_s = Lit ''0.020'', order_r = False, order_t = Gtc\<rparr>,
          \<lparr>order_a = 0, order_b = False, order_p = Str_float 49950,
           order_s = Lit ''0.020'', order_r = False, order_t = Gtc\<rparr>]
   \<and> \<not> snd (execute_funding_arb env_perp_down btc 36.5 (ex_bot, world0))"
proof -
  let ?R = "execute_funding_arb env_perp_down btc 36.5 (ex_bot, world0)"
  have h: "?R = ((fst (fst ?R), snd (fst ?R)), snd ?R)" by simp
  have m: "mark_price btc \<noteq> 0" "0 \<le> size_decimals btc"
    by (simp_all add: btc_def)
  have s: "exchange env_perp_down [] (spot_leg ex_bot btc) = Returns (Object (Some ''ok''))"
    by (simp add: env_perp_down_def)
  have p: "exchange env_perp_down [spot_leg ex_bot btc] (perp_leg ex_bot btc)
             = Raises RequestException"
    by (simp add: env_perp_down_def)
  have a: "accepted (exchange env_perp_down (sent world0) (spot_leg ex_bot btc))"
    using s by (simp add: accepted_def world0_def)
  have n: "\<not> has_status (exchange env_perp_down (sent world0 @ [spot_leg ex_bot btc])
                            (perp_leg ex_bot btc))"
    using p by (simp add: world0_def)
  from execute_perp_no_status [OF h m a n]
  have "sent (snd (fst ?R)) = [spot_leg ex_bot btc, perp_leg ex_bot btc]" "\<not> snd ?R"
    by (simp_all add: world0_def)
  with s p show ?thesis
    by (simp add: spot_leg_btc perp_leg_btc)
qed






section \<open>The ranking\<close>



lemma sort_abs_reverse_set [simp]: "set (sort_abs_reverse xs) = set xs"
  by (simp add: sort_abs_reverse_def)

lemma sort_abs_reverse_Nil_iff [simp]: "sort_abs_reverse xs = [] \<longleftrightarrow> xs = []"
  by (metis set_empty sort_abs_reverse_set)




section \<open>The market data feed\<close>

lemma fetch_failure_cycle:
  assumes "quote e = Request_failed err \<or> quote e = Malformed err
           \<or> (\<exists>universe ctxs ms. quote e = Quote universe ctxs
                 \<and> refresh_loop universe 0 ctxs (markets b) [] = (ms, Inl err))"
  shows "snd (get_funding_opportunities e (b, w)) = []
       \<and> sent (snd (cycle e (b, w))) = sent w
       \<and> calls (snd (cycle e (b, w))) = calls w
       \<and> active_positions (fst (cycle e (b, w))) = active_positions b
       \<and> (\<exists>pre. trace (snd (cycle e (b, w))) =
                   trace w @ pre @ [Exc ''Error fetching funding opportunities: '' err,
                                    Info ''No opportunities found'', Sleep 60])"
  using assms
proof (elim disjE exE conjE)
  assume "quote e = Request_failed err"
  then show ?thesis
    by (simp add: get_funding_opportunities_def cycle_def)
next
  assume "quote e = Malformed err"
  then show ?thesis
    by (simp add: get_funding_opportunities_def cycle_def)
next
  fix universe ctxs ms
  assume "quote e = Quote universe ctxs"
    "refresh_loop universe 0 ctxs (markets b) [] = (ms, Inl err)"
  then show ?thesis
    by (simp add: get_funding_opportunities_def cycle_def)
qed


text \<open>
  Claim C9. When the quote fetch fails, \<open>get_funding_opportunities\<close> returns the
  empty list instead of raising, and the cycle of the control loop submits no
  order, invokes \<open>execute_funding_arb\<close> not at all, leaves the ledger as it is,
  logs the failure and \<open>No opportunities found\<close>, and sleeps 60. The fetch fails
  when the request raises, when the body has not the expected shape, and when the
  snapshot cannot be read to its end: it has more contexts than universe entries,
  or a number of a known instrument is missing or does not parse.
\<close>

theorem C9_fetch_failure_skips_cycle:
  assumes "case quote e of
             Request_failed err \<Rightarrow> True
           | Malformed err \<Rightarrow> True
           | Quote universe ctxs \<Rightarrow>
               \<not> (length ctxs \<le> length universe
                  \<and> (\<forall>j<length ctxs. markets b (perp_name (universe ! j)) \<noteq> None \<longrightarrow>
                        (\<exists>r. funding (ctxs ! j) = Inr r) \<and> (\<exists>px. markPx (ctxs ! j) = Inr px)))"
  shows "snd (get_funding_opportunities e (b, w)) = []
       \<and> sent (snd (cycle e (b, w))) = sent w
       \<and> calls (snd (cycle e (b, w))) = calls w
       \<and> active_positions (fst (cycle e (b, w))) = active_positions b
       \<and> (\<exists>pre err. trace (snd (cycle e (b, w))) =
                   trace w @ pre @ [Exc ''Error fetching funding opportunities: '' err,
                                    Info ''No opportunities found'', Sleep 60])"
proof -
  have "\<exists>err. quote e = Request_failed err \<or> quote e = Malformed err
           \<or> (\<exists>universe ctxs ms. quote e = Quote universe ctxs
                 \<and> refresh_loop universe 0 ctxs (markets b) [] = (ms, Inl err))"
  proof (cases "quote e")
    case (Request_failed err)
    then show ?thesis by blast
  next
    case (Malformed err)
    then show ?thesis by blast
  next
    case (Quote universe ctxs)
    with assms have f: "isl (snd (refresh_loop universe 0 ctxs (markets b) []))"
      by (simp add: refresh_loop_fails_iff)
    obtain ms res where run: "refresh_loop universe 0 ctxs (markets b) [] = (ms, res)"
      by (cases "refresh_loop universe 0 ctxs (markets b) []")
    with f obtain err where "res = Inl err"
      by (cases res) auto
    with run Quote show ?thesis by blast
  qed
  then obtain err where "quote e = Request_failed err \<or> quote e = Malformed err
           \<or> (\<exists>universe ctxs ms. quote e = Quote universe ctxs
                 \<and> refresh_loop universe 0 ctxs (markets b) [] = (ms, Inl err))"
    by blast
  from fetch_failure_cycle [OF this, of w] show ?thesis by blast
qed

theorem C9_fetch_failure_skips_cycle_witness:
  "snd (get_funding_opportunities env_bad_quote (three_bot, world0)) = []
   \<and> sent (snd (cycle env_bad_quote (three_bot, world0))) = []
   \<and> calls (snd (cycle env_bad_quote (three_bot, world0))) = []
   \<and> active_positions (fst (cycle env_bad_quote (three_bot, world0))) = Map.empty
   \<and> (\<exists>pre err. trace (snd (cycle env_bad_quote (three_bot, world0))) =
               pre @ [Exc ''Error fetching funding opportunities: '' err,
                      Info ''No opportunities found'', Sleep 60])"
proof -
  let ?cs = "[\<lparr>funding = Inr 0.0001, markPx = Inr 50000\<rparr>,
              \<lparr>funding = Inl ValueError, markPx = Inr 2500\<rparr>]"
  have q: "quote env_bad_quote = Quote three_perps ?cs"
    by (simp add: env_bad_quote_def)
  have bad: "\<not> (\<forall>j<length ?cs. markets three_bot (perp_name (three_perps ! j)) \<noteq> None \<longrightarrow>
                 (\<exists>r. funding (?cs ! j) = Inr r) \<and> (\<exists>px. markPx (?cs ! j) = Inr px))"
  proof
    assume "\<forall>j<length ?cs. markets three_bot (perp_name (three_perps ! j)) \<noteq> None \<longrightarrow>
                 (\<exists>r. funding (?cs ! j) = Inr r) \<and> (\<exists>px. markPx (?cs ! j) = Inr px)"
    from this [rule_format, of 1] show False
      by (simp add: three_bot_def three_perps_def)
  qed
  have "case quote env_bad_quote of
             Request_failed err \<Rightarrow> True
           | Malformed err \<Rightarrow> True
           | Quote universe ctxs \<Rightarrow>
               \<not> (length ctxs \<le> length universe
                  \<and> (\<forall>j<length ctxs. markets three_bot (perp_name (universe ! j)) \<noteq> None \<longrightarrow>
                        (\<exists>r. funding (ctxs ! j) = Inr r) \<and> (\<exists>px. markPx (ctxs ! j) = Inr px)))"
    unfolding q using bad by simp
  from C9_fetch_failure_skips_cycle [OF this, of world0] show ?thesis
    by (simp add: world0_def three_bot_def)
qed


section \<open>The control loop\<close>

lemma map_markets_catalog_ok:
  "catalog_ok ms \<Longrightarrow> catalog_ok (map_markets i perps spots ms)"
proof (induction perps arbitrary: i ms)
  case Nil
  then show ?case by simp
next
  case (Cons p perps)
  show ?case
  proof (cases "find_spot (perp_name p) spots")
    case None
    then show ?thesis using Cons by simp
  next
    case (Some s)
    let ?m = "\<lparr>symbol = perp_name p, perp_asset_id = int i,
               spot_asset_id = 10000 + spot_index s, funding_rate = 0,
               mark_price = 0, size_decimals = szDecimals p\<rparr>"
    have ok: "catalog_ok (ms(perp_name p \<mapsto> ?m))"
      using Cons.prems by (auto simp: catalog_ok_def)
    have eq: "map_markets i (p # perps) spots ms
                = map_markets (Suc i) perps spots (ms(perp_name p \<mapsto> ?m))"
      using Some by simp
    show ?thesis unfolding eq by (rule Cons.IH [OF ok])
  qed
qed

lemma refresh_loop_catalog_ok:
  "catalog_ok ms \<Longrightarrow> catalog_ok (fst (refresh_loop u i cs ms opps))"
proof (induction cs arbitrary: i ms opps)
  case Nil
  then show ?case by simp
next
  case (Cons c cs)
  let ?s = "perp_name (u ! i)"
  show ?case
  proof (cases "i < length u")
    case False
    then show ?thesis using Cons.prems by simp
  next
    case inr: True
    show ?thesis
    proof (cases "ms ?s")
      case None
      show ?thesis
        unfolding refresh_loop_Cons_unknown [where ms = ms, OF inr None]
        by (rule Cons.IH [OF Cons.prems])
    next
      case (Some m)
      have upd: "catalog_ok (ms(?s \<mapsto> m\<lparr>funding_rate := a\<rparr>))"
        "catalog_ok (ms(?s \<mapsto> m\<lparr>funding_rate := a, mark_price := p\<rparr>))" for a p
        using Cons.prems Some by (auto simp: catalog_ok_def)
      show ?thesis
      proof (cases "funding c")
        case (Inl err)
        then show ?thesis using inr Some Cons.prems by (simp add: Let_def)
      next
        case r: (Inr r)
        show ?thesis
        proof (cases "markPx c")
          case (Inl err)
          then show ?thesis
            using inr Some r Cons.prems by (auto simp: Let_def catalog_ok_def)
        next
          case px: (Inr px)
          show ?thesis
            unfolding refresh_loop_Cons_known [where ms = ms, OF inr Some r px]
            by (rule Cons.IH [OF upd(2)])
        qed
      qed
    qed
  qed
qed

lemma opps_of_symbol:
  "catalog_ok ms \<Longrightarrow> \<forall>x\<in>set (opps_of u i cs ms). symbol (opp_market x) = opp_symbol x"
  by (induction cs arbitrary: i) (auto simp: catalog_ok_def split: option.splits sum.splits)

lemma arb_body_calls:
  "arb_body e mkt fr (b, w) = ((b1, w1), r) \<Longrightarrow> calls w1 = calls w"
  unfolding arb_body_def Let_def place_order_eq emergency_close_def
  by (auto split: if_splits sum.splits)

lemma execute_calls:
  assumes "execute_funding_arb e mkt fr (b, w) = ((b', w'), res)"
  shows "calls w' = calls w @ [(mkt, active_positions b, res)]"
proof -
  obtain b1 w1 r where body: "arb_body e mkt fr (b, w) = ((b1, w1), r)"
    by (cases "arb_body e mkt fr (b, w)") auto
  from arb_body_calls [OF body] assms body show ?thesis
    by (cases r) (auto simp: execute_funding_arb_def)
qed

lemma execute_effect:
  assumes "execute_funding_arb e mkt fr (b, w) = ((b', w'), res)"
  shows "calls w' = calls w @ [(mkt, active_positions b, res)]
       \<and> markets b' = markets b
       \<and> min_funding_rate b' = min_funding_rate b
       \<and> (if res then \<exists>p. active_positions b' = (active_positions b)(symbol mkt \<mapsto> p)
           else active_positions b' = active_positions b)"
  using assms execute_calls [OF assms]
  by (cases rule: execute_cases) auto

lemma hedge_loop_Cons_skip:
  assumes "\<not> (min_funding_rate b \<le> \<bar>opp_funding_rate x\<bar> \<and> active_positions b (opp_symbol x) = None)"
  shows "hedge_loop e (x # opps) (b, w) = hedge_loop e opps (b, w)"
  using assms by auto

lemma hedge_loop_Cons_call:
  assumes "min_funding_rate b \<le> \<bar>opp_funding_rate x\<bar>" "active_positions b (opp_symbol x) = None"
  shows "\<exists>b1 w1 res t0 t1.
           execute_funding_arb e (opp_market x) (opp_funding_rate x) (b, w\<lparr>trace := t0\<rparr>)
             = ((b1, w1), res)
         \<and> hedge_loop e (x # opps) (b, w) = hedge_loop e opps (b1, w1\<lparr>trace := t1\<rparr>)"
proof -
  let ?w0 = "w\<lparr>trace := trace w @
               [Info (CHR 0x0A # ''Found opportunity: '' @ opp_symbol x @ '' with '' @
                      format_f 2 (opp_funding_rate x) @ ''% APR funding rate'')]\<rparr>"
  obtain b1 w1 res where
    ex: "execute_funding_arb e (opp_market x) (opp_funding_rate x) (b, ?w0) = ((b1, w1), res)"
    by (cases "execute_funding_arb e (opp_market x) (opp_funding_rate x) (b, ?w0)") auto
  let ?t1 = "trace w1 @
               [if res
                then Info (''Successfully executed funding arbitrage for '' @ opp_symbol x)
                else Error (''Failed to execute funding arbitrage for '' @ opp_symbol x)]"
  have "hedge_loop e (x # opps) (b, w) = hedge_loop e opps (b1, w1\<lparr>trace := ?t1\<rparr>)"
    using assms ex by simp
  with ex show ?thesis by blast
qed

lemma hedge_loop_basic:
  assumes "hedge_loop e opps (b, w) = (b', w')"
  shows "(\<exists>new. calls w' = calls w @ new) \<and> markets b' = markets b
         \<and> min_funding_rate b' = min_funding_rate b"
  using assms
proof (induction opps arbitrary: b w)
  case Nil
  then show ?case by simp
next
  case (Cons x opps)
  show ?case
  proof (cases "min_funding_rate b \<le> \<bar>opp_funding_rate x\<bar> \<and> active_positions b (opp_symbol x) = None")
    case False
    from Cons.IH [OF Cons.prems [unfolded hedge_loop_Cons_skip [OF False]]]
    show ?thesis .
  next
    case True
    from hedge_loop_Cons_call [where e = e and w = w and opps = opps,
        OF True [THEN conjunct1] True [THEN conjunct2]] obtain b1 w1 res t0 t1 where
      ex: "execute_funding_arb e (opp_market x) (opp_funding_rate x) (b, w\<lparr>trace := t0\<rparr>)
             = ((b1, w1), res)"
      and eq: "hedge_loop e (x # opps) (b, w) = hedge_loop e opps (b1, w1\<lparr>trace := t1\<rparr>)"
      by blast
    from execute_effect [OF ex] have
      1: "calls w1 = calls w @ [(opp_market x, active_positions b, res)]"
        "markets b1 = markets b" "min_funding_rate b1 = min_funding_rate b"
      by simp_all
    from Cons.IH [OF Cons.prems [unfolded eq]] 1 show ?thesis
      by auto
  qed
qed

lemma ledger_step:
  assumes "ledger_ok (b, w)"
    and "active_positions b (symbol mkt) = None"
    and "execute_funding_arb e mkt fr (b, w\<lparr>trace := t0\<rparr>) = ((b1, w1), res)"
  shows "ledger_ok (b1, w1\<lparr>trace := t1\<rparr>)"
proof -
  from execute_effect [OF assms(3)] have
    c: "calls w1 = calls w @ [(mkt, active_positions b, res)]"
    and a: "if res then \<exists>p. active_positions b1 = (active_positions b)(symbol mkt \<mapsto> p)
            else active_positions b1 = active_positions b"
    by simp_all
  from assms(1) have
    l: "\<forall>c\<in>set (calls w). fst (snd c) (symbol (fst c)) = None"
      "distinct (hedged w)" "dom (active_positions b) = set (hedged w)"
    by (simp_all add: ledger_ok_def)
  have fresh: "symbol mkt \<notin> set (hedged w)"
    using assms(2) l(3) by (auto simp: domIff)
  have h: "hedged (w1\<lparr>trace := t1\<rparr>) = hedged w @ (if res then [symbol mkt] else [])"
    using c by (simp add: hedged_def)
  show ?thesis
  proof (cases res)
    case True
    with a obtain p where "active_positions b1 = (active_positions b)(symbol mkt \<mapsto> p)"
      by auto
    with True l fresh h c assms(2) show ?thesis
      by (auto simp: ledger_ok_def)
  next
    case False
    with a l h c assms(2) show ?thesis
      by (auto simp: ledger_ok_def)
  qed
qed

lemma hedge_loop_ledger:
  assumes "\<forall>x\<in>set opps. symbol (opp_market x) = opp_symbol x"
    and "ledger_ok (b, w)"
    and "hedge_loop e opps (b, w) = (b', w')"
  shows "ledger_ok (b', w')"
  using assms
proof (induction opps arbitrary: b w)
  case Nil
  then show ?case by simp
next
  case (Cons x opps)
  have rest: "\<forall>x\<in>set opps. symbol (opp_market x) = opp_symbol x"
    and sx: "symbol (opp_market x) = opp_symbol x"
    using Cons.prems(1) by simp_all
  show ?case
  proof (cases "min_funding_rate b \<le> \<bar>opp_funding_rate x\<bar> \<and> active_positions b (opp_symbol x) = None")
    case False
    from Cons.IH [OF rest Cons.prems(2) Cons.prems(3) [unfolded hedge_loop_Cons_skip [OF False]]]
    show ?thesis .
  next
    case True
    from hedge_loop_Cons_call [where e = e and w = w and opps = opps,
        OF True [THEN conjunct1] True [THEN conjunct2]] obtain b1 w1 res t0 t1 where
      ex: "execute_funding_arb e (opp_market x) (opp_funding_rate x) (b, w\<lparr>trace := t0\<rparr>)
             = ((b1, w1), res)"
      and eq: "hedge_loop e (x # opps) (b, w) = hedge_loop e opps (b1, w1\<lparr>trace := t1\<rparr>)"
      by blast
    have "active_positions b (symbol (opp_market x)) = None"
      using True sx by simp
    from ledger_step [OF Cons.prems(2) this ex]
    have "ledger_ok (b1, w1\<lparr>trace := t1\<rparr>)" .
    from Cons.IH [OF rest this Cons.prems(3) [unfolded eq]]
    show ?thesis .
  qed
qed

lemma hedge_loop_attempts:
  assumes "\<forall>x\<in>set opps. symbol (opp_market x) = opp_symbol x"
    and "hedge_loop e opps (b, w) = (b', w')"
    and "y \<in> set opps"
    and "min_funding_rate b \<le> \<bar>opp_funding_rate y\<bar>"
    and "active_positions b (opp_symbol y) = None"
  shows "\<exists>c\<in>set (drop (length (calls w)) (calls w')). symbol (fst c) = opp_symbol y"
  using assms
proof (induction opps arbitrary: b w)
  case Nil
  then show ?case by simp
next
  case (Cons x opps)
  have rest: "\<forall>x\<in>set opps. symbol (opp_market x) = opp_symbol x"
    and sx: "symbol (opp_market x) = opp_symbol x"
    using Cons.prems(1) by simp_all
  show ?case
  proof (cases "min_funding_rate b \<le> \<bar>opp_funding_rate x\<bar> \<and> active_positions b (opp_symbol x) = None")
    case False
    with Cons.prems(4,5) have "y \<noteq> x" by auto
    with Cons.prems(3) have "y \<in> set opps" by simp
    from Cons.IH [OF rest Cons.prems(2) [unfolded hedge_loop_Cons_skip [OF False]] this
        Cons.prems(4,5)]
    show ?thesis .
  next
    case True
    from hedge_loop_Cons_call [where e = e and w = w and opps = opps,
        OF True [THEN conjunct1] True [THEN conjunct2]] obtain b1 w1 res t0 t1 where
      ex: "execute_funding_arb e (opp_market x) (opp_funding_rate x) (b, w\<lparr>trace := t0\<rparr>)
             = ((b1, w1), res)"
      and eq: "hedge_loop e (x # opps) (b, w) = hedge_loop e opps (b1, w1\<lparr>trace := t1\<rparr>)"
      by blast
    note run = Cons.prems(2) [unfolded eq]
    from execute_effect [OF ex] have
      c: "calls w1 = calls w @ [(opp_market x, active_positions b, res)]"
      and m: "min_funding_rate b1 = min_funding_rate b"
      and a: "if res then \<exists>p. active_positions b1 = (active_positions b)(symbol (opp_market x) \<mapsto> p)
            else active_positions b1 = active_positions b"
      by simp_all
    from hedge_loop_basic [OF run] obtain new where
      new: "calls w' = calls w1 @ new" by auto
    show ?thesis
    proof (cases "opp_symbol y = opp_symbol x")
      case True
      have "(opp_market x, active_positions b, res) \<in> set (drop (length (calls w)) (calls w'))"
        using new c by simp
      moreover have "symbol (fst (opp_market x, active_positions b, res)) = opp_symbol y"
        using True sx by simp
      ultimately show ?thesis by blast
    next
      case False
      then have "y \<noteq> x" by auto
      with Cons.prems(3) have y: "y \<in> set opps" by simp
      have "active_positions b1 (opp_symbol y) = None"
        using a False sx Cons.prems(5) by (auto split: if_splits)
      from Cons.IH [OF rest run y _ this] m Cons.prems(4)
      obtain c' where c': "c' \<in> set (drop (length (calls (w1\<lparr>trace := t1\<rparr>))) (calls w'))"
        "symbol (fst c') = opp_symbol y"
        by auto
      from c'(1) new c have "c' \<in> set new" by simp
      then have "c' \<in> set (drop (length (calls w)) (calls w'))"
        using new c by simp
      with c'(2) show ?thesis by blast
    qed
  qed
qed

lemma get_funding_opportunities_effect:
  assumes "get_funding_opportunities e (b, w) = ((b1, w1), opps)"
  shows "active_positions b1 = active_positions b
       \<and> min_funding_rate b1 = min_funding_rate b
       \<and> calls w1 = calls w \<and> sent w1 = sent w
       \<and> (catalog_ok (markets b) \<longrightarrow>
            catalog_ok (markets b1) \<and> (\<forall>x\<in>set opps. symbol (opp_market x) = opp_symbol x))"
proof (cases "quote e")
  case (Request_failed err)
  with assms show ?thesis by (auto simp: get_funding_opportunities_def)
next
  case (Malformed err)
  with assms show ?thesis by (auto simp: get_funding_opportunities_def)
next
  case (Quote u cs)
  obtain ms' r where run: "refresh_loop u 0 cs (markets b) [] = (ms', r)"
    by (cases "refresh_loop u 0 cs (markets b) []")
  have ok: "catalog_ok ms'" if "catalog_ok (markets b)"
    using refresh_loop_catalog_ok [OF that, of u 0 cs "[]"] run by simp
  show ?thesis
  proof (cases r)
    case (Inl err)
    with assms Quote run ok show ?thesis
      by (auto simp: get_funding_opportunities_def)
  next
    case (Inr collected)
    have "collected = opps_of u 0 cs ms'"
      using refresh_loop_opps [OF run [unfolded Inr]] by simp
    then have "\<forall>x\<in>set collected. symbol (opp_market x) = opp_symbol x" if "catalog_ok (markets b)"
      using opps_of_symbol [OF ok [OF that]] by simp
    with assms Quote run ok Inr show ?thesis
      by (auto simp: get_funding_opportunities_def)
  qed
qed

lemma cycle_ledger:
  assumes "catalog_ok (markets b)" and "ledger_ok (b, w)"
  shows "catalog_ok (markets (fst (cycle e (b, w)))) \<and> ledger_ok (cycle e (b, w))
         \<and> min_funding_rate (fst (cycle e (b, w))) = min_funding_rate b"
proof -
  obtain b1 w1 opps where g: "get_funding_opportunities e (b, w) = ((b1, w1), opps)"
    by (cases "get_funding_opportunities e (b, w)") auto
  note eff = get_funding_opportunities_effect [OF g]
  from eff assms(1) have ok1: "catalog_ok (markets b1)"
    and sym: "\<forall>x\<in>set opps. symbol (opp_market x) = opp_symbol x"
    by simp_all
  have l1: "ledger_ok (b1, w1\<lparr>trace := t\<rparr>)" for t
    using assms(2) eff by (simp add: ledger_ok_def hedged_def)
  show ?thesis
  proof (cases "opps = []")
    case True
    with g ok1 l1 eff show ?thesis
      by (simp add: cycle_def)
  next
    case False
    let ?w = "w1\<lparr>trace := trace w1 @
                 Info (CHR 0x0A # ''Top funding rate opportunities:'') #
                 map (\<lambda>opp. Info (opp_symbol opp @ '': '' @
                                  format_f 2 (opp_funding_rate opp) @ ''% APR''))
                   (take 5 opps)\<rparr>"
    obtain b2 w2 where h: "hedge_loop e opps (b1, ?w) = (b2, w2)"
      by (cases "hedge_loop e opps (b1, ?w)")
    from hedge_loop_ledger [OF sym l1 h] have l2: "ledger_ok (b2, w2)" .
    from hedge_loop_basic [OF h] have m2: "markets b2 = markets b1"
      "min_funding_rate b2 = min_funding_rate b1" by simp_all
    have c: "cycle e (b, w) = (b2, w2\<lparr>trace := trace w2 @ [Sleep 60]\<rparr>)"
      using g h False by (simp add: cycle_def)
    have "ledger_ok (b2, w2\<lparr>trace := trace w2 @ [Sleep 60]\<rparr>)"
      using l2 by (simp add: ledger_ok_def hedged_def)
    with c m2 ok1 eff show ?thesis by simp
  qed
qed

lemma init_bot_ok:
  assumes "init_bot hl_key hl_secret min_rate size_usd slippage perp_meta spot_meta world0 = (w, Inr b)"
  shows "catalog_ok (markets b) \<and> ledger_ok (b, w) \<and> min_funding_rate b = min_rate"
proof -
  have e: "catalog_ok Map.empty" by (simp add: catalog_ok_def)
  from assms show ?thesis
    by (auto simp: init_bot_def initialize_markets_def Let_def world0_def ledger_ok_def hedged_def
        map_markets_catalog_ok [OF e]
        split: if_splits sum.splits)
qed

lemma reachable_inv:
  assumes "reachable bw"
  shows "catalog_ok (markets (fst bw)) \<and> ledger_ok bw \<and> min_funding_rate (fst bw) = 0.05"
  using assms
proof (induction rule: reachable.induct)
  case (start hl_key hl_secret perp_meta spot_meta w b)
  from init_bot_ok [OF start] show ?case by simp
next
  case (step bw e)
  obtain b w where bw: "bw = (b, w)" by (cases bw)
  from cycle_ledger [of b w e] step.IH bw show ?case by simp
qed

text \<open>
  Claim C4. In every state \<open>main\<close> can reach at the head of its loop (after
  construction and any number of cycles, in any environments), every invocation of
  \<open>execute_funding_arb\<close> made so far found the symbol of its market absent
  from the ledger at the moment of the invocation; no symbol has been hedged
  successfully twice; and the keys of the ledger are exactly the symbols hedged
  successfully, so each underlying has at most one Position, recorded once.
\<close>

theorem C4_no_second_hedge:
  assumes "reachable (b, w)"
  shows "(\<forall>c\<in>set (calls w). fst (snd c) (symbol (fst c)) = None)
       \<and> distinct (hedged w)
       \<and> dom (active_positions b) = set (hedged w)"
  using reachable_inv [OF assms] by (simp add: ledger_ok_def)

lemma ex_init_bot: "snd ex_init = Inr ex_bot0"
  by (simp add: ex_init_def init_bot_def initialize_markets_def Let_def ex_perps_def ex_spots_def
      split_slash_0_def ex_bot0_def ex_catalog_def btc0_def)

lemma ex_init_world: "sent (fst ex_init) = [] \<and> calls (fst ex_init) = []"
  by (simp add: ex_init_def init_bot_def initialize_markets_def Let_def world0_def)

lemma ex_start_reachable: "reachable (ex_bot0, fst ex_init)"
proof (rule reachable.start)
  show "init_bot (Some ''key'') (Some ''secret'') 0.05 1000 0.001
          (Inr ex_perps) (Inr ex_spots) world0 = (fst ex_init, Inr ex_bot0)"
  proof -
    have "ex_init = (fst ex_init, snd ex_init)" by simp
    then have "ex_init = (fst ex_init, Inr ex_bot0)"
      unfolding ex_init_bot .
    then show ?thesis by (simp only: ex_init_def)
  qed
qed

lemma ex_second_cycle:
  "hedged (snd (cycle env_ok (cycle env_ok (ex_bot0, fst ex_init)))) = [''BTC'']
   \<and> length (calls (snd (cycle env_ok (cycle env_ok (ex_bot0, fst ex_init))))) = 1"
  using ex_init_world
  by (simp add: cycle_def get_funding_opportunities_def env_ok_def ex_quote_def ex_perps_def
      ex_bot0_def ex_catalog_def btc0_def Let_def annualize_def sort_abs_reverse_def
      execute_funding_arb_def arb_body_def place_order_def hedged_def)

theorem C4_no_second_hedge_witness:
  "reachable (cycle env_ok (cycle env_ok (ex_bot0, fst ex_init)))
   \<and> map (\<lambda>c. fst (snd c) (symbol (fst c)))
        (calls (snd (cycle env_ok (cycle env_ok (ex_bot0, fst ex_init))))) = [None]
   \<and> distinct (hedged (snd (cycle env_ok (cycle env_ok (ex_bot0, fst ex_init)))))
   \<and> dom (active_positions (fst (cycle env_ok (cycle env_ok (ex_bot0, fst ex_init)))))
       = set (hedged (snd (cycle env_ok (cycle env_ok (ex_bot0, fst ex_init)))))
   \<and> hedged (snd (cycle env_ok (cycle env_ok (ex_bot0, fst ex_init)))) = [''BTC'']"
proof -
  let ?S = "cycle env_ok (cycle env_ok (ex_bot0, fst ex_init))"
  have r: "reachable ?S"
    by (intro reachable.step ex_start_reachable)
  then have "reachable (fst ?S, snd ?S)" by simp
  note c = C4_no_second_hedge [OF this]
  from ex_second_cycle obtain x where x: "calls (snd ?S) = [x]"
    by (auto simp: length_Suc_conv)
  with c have "map (\<lambda>c. fst (snd c) (symbol (fst c))) (calls (snd ?S)) = [None]"
    by simp
  with c r ex_second_cycle show ?thesis by blast
qed

lemma opps_of_mem:
  assumes "j < length cs" and "ms (perp_name (u ! (i + j))) = Some m"
    and "funding (cs ! j) = Inr r" and "markPx (cs ! j) = Inr px"
  shows "\<lparr>opp_symbol = perp_name (u ! (i + j)), opp_funding_rate = annualize r,
          opp_mark_price = px, opp_market = m\<rparr> \<in> set (opps_of u i cs ms)"
  using assms
proof (induction cs arbitrary: i j)
  case Nil
  then show ?case by simp
next
  case (Cons c cs)
  show ?case
  proof (cases j)
    case 0
    with Cons.prems show ?thesis by simp
  next
    case (Suc n)
    with Cons.prems have "n < length cs" "ms (perp_name (u ! (Suc i + n))) = Some m"
      "funding (cs ! n) = Inr r" "markPx (cs ! n) = Inr px"
      by simp_all
    from Cons.IH [OF this] Suc show ?thesis
      by (auto split: option.splits sum.splits)
  qed
qed

text \<open>
  Claim C5. In every reachable state the threshold is the 0.05 that \<open>main\<close>
  passes, and it is compared with the rate in percent units: in a cycle whose
  snapshot is read without an exception, for every known instrument with raw rate
  \<open>r\<close> such that \<open>0.05 \<le> \<bar>r * 365 * 100\<bar>\<close> and whose symbol is not in the
  ledger when the cycle starts, \<open>execute_funding_arb\<close> is invoked for that symbol
  in this cycle. The raw rate 0.000002 (annualized 0.073) qualifies.
\<close>

theorem C5_threshold_in_percent_units:
  assumes "reachable (b, w)"
    and "quote e = Quote universe ctxs"
    and "length ctxs \<le> length universe"
    and "\<forall>i<length ctxs. markets b (perp_name (universe ! i)) \<noteq> None \<longrightarrow>
           (\<exists>r. funding (ctxs ! i) = Inr r) \<and> (\<exists>px. markPx (ctxs ! i) = Inr px)"
    and "i < length ctxs"
    and "markets b (perp_name (universe ! i)) \<noteq> None"
    and "funding (ctxs ! i) = Inr r"
    and "0.05 \<le> \<bar>r * 365 * 100\<bar>"
    and "active_positions b (perp_name (universe ! i)) = None"
  shows "min_funding_rate b = 0.05
       \<and> (\<exists>c\<in>set (drop (length (calls w)) (calls (snd (cycle e (b, w))))).
             symbol (fst c) = perp_name (universe ! i))"
proof -
  let ?k = "perp_name (universe ! i)"
  from reachable_inv [OF assms(1)] have ok: "catalog_ok (markets b)"
    and thr: "min_funding_rate b = 0.05" by simp_all
  obtain b1 w1 opps where g: "get_funding_opportunities e (b, w) = ((b1, w1), opps)"
    by (cases "get_funding_opportunities e (b, w)") auto
  note eff = get_funding_opportunities_effect [OF g]
  from eff ok have sym: "\<forall>x\<in>set opps. symbol (opp_market x) = opp_symbol x"
    by simp
  obtain ms' res where run: "refresh_loop universe 0 ctxs (markets b) [] = (ms', res)"
    by (cases "refresh_loop universe 0 ctxs (markets b) []")
  from refresh_loop_success [of 0 ctxs universe "markets b" "[]"] assms(3,4) run
  obtain collected where res: "res = Inr collected" by auto
  note run = run [unfolded res]
  have opps: "opps = sort_abs_reverse collected"
    using g assms(2) run by (simp add: get_funding_opportunities_def)
  have coll: "collected = opps_of universe 0 ctxs ms'"
    using refresh_loop_opps [OF run] by simp
  have "dom ms' = dom (markets b)" by (rule refresh_loop_dom_eq [OF run])
  with assms(6) obtain m where m: "ms' ?k = Some m"
    by (metis domD domIff)
  from assms(4,5,6) obtain px where px: "markPx (ctxs ! i) = Inr px" by blast
  let ?y = "\<lparr>opp_symbol = ?k, opp_funding_rate = annualize r,
             opp_mark_price = px, opp_market = m\<rparr>"
  have "?y \<in> set (opps_of universe 0 ctxs ms')"
    using opps_of_mem [of i ctxs ms' universe 0 m r px] assms(5,7) m px by simp
  then have y: "?y \<in> set opps"
    using opps coll by simp
  then have ne: "opps \<noteq> []" by auto
  let ?w = "w1\<lparr>trace := trace w1 @
               Info (CHR 0x0A # ''Top funding rate opportunities:'') #
               map (\<lambda>opp. Info (opp_symbol opp @ '': '' @
                                format_f 2 (opp_funding_rate opp) @ ''% APR''))
                 (take 5 opps)\<rparr>"
  obtain b2 w2 where h: "hedge_loop e opps (b1, ?w) = (b2, w2)"
    by (cases "hedge_loop e opps (b1, ?w)")
  have c: "cycle e (b, w) = (b2, w2\<lparr>trace := trace w2 @ [Sleep 60]\<rparr>)"
    using g h ne by (simp add: cycle_def)
  have "min_funding_rate b1 \<le> \<bar>opp_funding_rate ?y\<bar>"
    using eff thr assms(8) by (simp add: annualize_def)
  moreover have "active_positions b1 (opp_symbol ?y) = None"
    using eff assms(9) by simp
  ultimately have "\<exists>c\<in>set (drop (length (calls ?w)) (calls w2)). symbol (fst c) = opp_symbol ?y"
    by (rule hedge_loop_attempts [OF sym h y])
  with c eff thr show ?thesis by simp
qed

theorem C5_threshold_in_percent_units_witness:
  "reachable (ex_bot0, fst ex_init)
   \<and> funding (small_ctxs ! 0) = Inr 0.000002
   \<and> 0.000002 * 365 * 100 = (0.073 :: rat)
   \<and> (0.05 :: rat) \<le> \<bar>0.000002 * 365 * 100\<bar>
   \<and> min_funding_rate ex_bot0 = 0.05
   \<and> (\<exists>c\<in>set (drop (length (calls (fst ex_init)))
                  (calls (snd (cycle env_small (ex_bot0, fst ex_init))))).
         symbol (fst c) = ''BTC'')"
proof -
  have q: "quote env_small = Quote ex_perps small_ctxs"
    by (simp add: env_small_def)
  have len: "length small_ctxs \<le> length ex_perps"
    by (simp add: small_ctxs_def ex_perps_def)
  have conv: "(\<exists>r. x = Inr r) \<longleftrightarrow> \<not> isl x" for x :: "error + rat"
    by (cases x) auto
  have "list_all (\<lambda>c. (\<exists>r. funding c = Inr r) \<and> (\<exists>px. markPx c = Inr px)) small_ctxs"
    unfolding conv by (simp add: small_ctxs_def)
  then have parse: "\<forall>i<length small_ctxs.
      markets ex_bot0 (perp_name (ex_perps ! i)) \<noteq> None \<longrightarrow>
        (\<exists>r. funding (small_ctxs ! i) = Inr r) \<and> (\<exists>px. markPx (small_ctxs ! i) = Inr px)"
    by (simp add: list_all_length)
  have i: "0 < length small_ctxs"
    by (simp add: small_ctxs_def)
  have name: "perp_name (ex_perps ! 0) = ''BTC''"
    by (simp add: ex_perps_def)
  have known: "markets ex_bot0 (perp_name (ex_perps ! 0)) \<noteq> None"
    by (simp add: name ex_bot0_def ex_catalog_def)
  have raw: "funding (small_ctxs ! 0) = Inr 0.000002"
    by (simp add: small_ctxs_def)
  have thr: "(0.05 :: rat) \<le> \<bar>0.000002 * 365 * 100\<bar>"
    by simp
  have free: "active_positions ex_bot0 (perp_name (ex_perps ! 0)) = None"
    by (simp add: ex_bot0_def)
  have val: "0.000002 * 365 * 100 = (0.073 :: rat)"
    by simp
  from C5_threshold_in_percent_units [OF ex_start_reachable q len parse i known raw thr free]
    ex_start_reachable raw thr val
  show ?thesis unfolding name by blast
qed

end
